theory Spec2Isabelle
  imports Complex_Main
begin

section \<open>Data model of \<open>src/types.ts\<close> and of the refs held by \<open>App\<close>\<close>

text \<open>
  \<open>ConnectionStatus\<close> is the enum of \<open>src/types.ts\<close>. The component \<open>App\<close> of
  \<open>src/App.tsx\<close> keeps four pieces of React state (\<open>status\<close>, \<open>hasPermission\<close>,
  \<open>isUserSpeaking\<close>, \<open>isAiSpeaking\<close>) and nine refs. A call of a React setter is
  modelled as an assignment: within one handler the last call wins, which is what the
  component shows once the handler has returned.

  A JavaScript number (a clock reading, a duration, a sample) is modelled by the real
  number that the double denotes. \<open>Math.max\<close> and comparisons are exact on doubles;
  \<open>+\<close>, \<open>*\<close>, \<open>/\<close> and \<open>Math.sqrt\<close> round their exact result to the nearest double
  (section "Double arithmetic").
\<close>

datatype ConnectionStatus = DISCONNECTED | CONNECTING | CONNECTED | ERROR

datatype error =
    InvalidStateError   \<comment> \<open>\<open>stop()\<close> on a source node that was never started\<close>
  | DanglingHandle      \<comment> \<open>a handle that denotes no allocated node (impossible in the program)\<close>
  | CodecError          \<comment> \<open>malformed audio: not base64, or a truncated frame\<close>
  | NotAllowedError     \<comment> \<open>\<open>getUserMedia\<close> rejected\<close>
  | InvalidAccessError  \<comment> \<open>\<open>connect\<close> to a node of another audio context\<close>
  | TypeError           \<comment> \<open>\<open>connect(null)\<close>\<close>

section \<open>Double arithmetic\<close>

text \<open>
  The arithmetic of lines 164 to 166 and of line 210 is IEEE 754 binary64 arithmetic with
  rounding to nearest, ties to even. \<open>binade x\<close> is the exponent \<open>e\<close> with
  \<open>2 powi e \<le> x < 2 powi (e + 1)\<close> of a positive \<open>x\<close>, computed from the number of
  binary digits of an integer (\<open>bits\<close>); the doubles of that binade are the multiples
  of \<open>ulp e = 2 powi (e - 52)\<close>, and \<open>rnd x\<close> is the multiple nearest to \<open>x\<close>, the even
  one of two that are equally near. The exponent range is not bounded: overflow to
  \<open>Infinity\<close> (beyond \<open>2 powi 1024\<close>) and gradual underflow (below \<open>2 powi (- 1022)\<close>)
  are outside the model, as are infinite and \<open>NaN\<close> operands and the sign of zero.
  Squares, sums and means of the 32-bit floats of a \<open>Float32Array\<close>, clock readings
  and durations stay inside that range.
\<close>

function bits :: "int \<Rightarrow> int" where
  "bits n = (if n \<le> 0 then 0 else bits (n div 2) + 1)"
  by pat_completeness auto
termination by (relation "measure nat") auto

declare bits.simps [simp del]

definition binade :: "real \<Rightarrow> int" where
  "binade x = (if 1 \<le> x then bits \<lfloor>x\<rfloor> - 1 else - bits (\<lceil>1 / x\<rceil> - 1))"

definition ties_even :: "real \<Rightarrow> int" where
  "ties_even y =
     (let f = \<lfloor>y\<rfloor>; d = y - of_int f
      in if d < 1 / 2 then f else if 1 / 2 < d then f + 1 else if even f then f else f + 1)"

definition ulp :: "int \<Rightarrow> real" where
  "ulp e = 2 powi (e - 52)"

definition rnd_pos :: "real \<Rightarrow> real" where
  "rnd_pos x = of_int (ties_even (x / ulp (binade x))) * ulp (binade x)"

definition rnd :: "real \<Rightarrow> real" where
  "rnd x = (if x = 0 then 0 else if x < 0 then - rnd_pos (- x) else rnd_pos x)"

text \<open>\<open>a + b\<close>, \<open>a * b\<close> and \<open>a / b\<close> on doubles.\<close>

definition fadd :: "real \<Rightarrow> real \<Rightarrow> real" where
  "fadd a b = rnd (a + b)"

definition fmul :: "real \<Rightarrow> real \<Rightarrow> real" where
  "fmul a b = rnd (a * b)"

definition fdiv :: "real \<Rightarrow> real \<Rightarrow> real" where
  "fdiv a b = rnd (a / b)"

text \<open>
  \<open>Math.sqrt\<close> on a double that is not negative: the double nearest to the square root.
  \<open>isqrt\<close> is the integer square root; the root's significand \<open>m\<close> is rounded up when
  the argument lies above the square of \<open>m + 1/2\<close>.
\<close>

function isqrt :: "int \<Rightarrow> int" where
  "isqrt n = (if n < 2 then max n 0
              else let s = 2 * isqrt (n div 4) in if (s + 1) * (s + 1) \<le> n then s + 1 else s)"
  by pat_completeness auto
termination by (relation "measure nat") auto

declare isqrt.simps [simp del]

definition fsqrt :: "real \<Rightarrow> real" where
  "fsqrt x =
     (if x \<le> 0 then 0
      else let u = ulp (binade x div 2);
               y = x / (u * u);
               m = isqrt \<lfloor>y\<rfloor>;
               h = (of_int m + 1 / 2) * (of_int m + 1 / 2)
           in of_int (if h < y \<or> (h = y \<and> odd m) then m + 1 else m) * u)"

text \<open>
  A reading of \<open>ctx.currentTime\<close> is a double that is not negative.
\<close>

definition is_clock :: "real \<Rightarrow> bool" where
  "is_clock t = (0 \<le> t \<and> rnd t = t)"

section \<open>Audio nodes and the state of \<open>App\<close>\<close>

text \<open>
  An \<open>AudioBuffer\<close> of the Web Audio API: a sample rate and one sample list per channel.
  Its \<open>duration\<close> attribute is the number of frames divided by the sample rate, a
  double.
\<close>

record AudioBuffer =
  buf_sampleRate :: nat
  buf_channels :: "real list list"

definition buf_length :: "AudioBuffer \<Rightarrow> nat" where
  "buf_length b = (case buf_channels b of [] \<Rightarrow> 0 | c # _ \<Rightarrow> length c)"

definition duration :: "AudioBuffer \<Rightarrow> real" where
  "duration b = fdiv (real (buf_length b)) (real (buf_sampleRate b))"

text \<open>
  An \<open>AudioBufferSourceNode\<close>: its buffer, the argument of \<open>start\<close> once it was called,
  and whether \<open>stop\<close> was called. \<open>src_clock\<close> records the reading of
  \<open>ctx.currentTime\<close> taken by the handler that created the node (line 189, before
  the handler waited for the decoder).
\<close>

record BufferSource =
  src_buffer :: AudioBuffer
  src_start :: "real option"
  src_stopped :: bool
  src_clock :: real

datatype AudioContextState = Suspended | Running | Closed

record AudioContext =
  ctx_sampleRate :: nat
  ctx_state :: AudioContextState

record ScriptProcessorNode =
  proc_bufferSize :: nat
  proc_connected :: bool
  proc_onaudioprocess :: bool   \<comment> \<open>whether the capture callback is installed\<close>

record MediaStreamAudioSourceNode =
  mss_connected :: bool

record GainNode =
  gain_connected :: bool

datatype TrackState = Live | Ended

record MediaStream =
  tracks :: "TrackState list"

text \<open>The outbound wire blob built by \<open>createPcmBlob\<close>: base64 text and a MIME type.\<close>

record PcmBlob =
  blob_data :: string
  blob_mimeType :: string

text \<open>A \<open>LiveServerMessage\<close> with the optional fields that \<open>onmessage\<close> reads.\<close>

record InlineData =
  inl_data :: "string option"

record Part =
  part_inlineData :: "InlineData option"

record Content =
  content_parts :: "Part list option"

record LiveServerContent =
  sc_modelTurn :: "Content option"
  sc_interrupted :: "bool option"

record LiveServerMessage =
  serverContent :: "LiveServerContent option"

text \<open>
  \<open>onmessage\<close> is an \<open>async\<close> function that waits for the decoder at line 191
  (\<open>await decodeAudioData(...)\<close>); nobody waits for \<open>onmessage\<close> itself, so other
  handlers run while a decode is pending. A pending decode is what the rest of the
  handler needs when it goes on: the message, the clock reading of line 189, the output
  context \<open>ctx\<close> of line 186 (identified by the number of the \<open>connect\<close> call that created
  it) and what the decoder settles to.
\<close>

record pending_decode =
  pd_message :: LiveServerMessage
  pd_clock :: real
  pd_context :: nat
  pd_result :: "error + AudioBuffer"

text \<open>
  A live session is identified by a number; \<open>sessionPromiseRef\<close> holds the session the
  pending promise resolves to. \<open>closeRequests\<close> lists the sessions on which
  \<open>session.close()\<close> was queued, \<open>outbox\<close> the realtime input events queued by
  \<open>session.sendRealtimeInput\<close> with the session they go to, \<open>alerts\<close> the texts shown
  by \<open>alert\<close>. \<open>heap\<close> holds every source node ever created; a handle is an index
  into it. \<open>sourcesRef\<close> is the JavaScript \<open>Set\<close> of handles, in insertion order.
  \<open>pending\<close> lists the decodes that \<open>onmessage\<close> is waiting for, oldest first, and
  \<open>contextsOpened\<close> counts the runs of lines 124 to 128, each of which creates the two
  contexts and the gain node anew.
\<close>

record app =
  status :: ConnectionStatus
  hasPermission :: bool
  isUserSpeaking :: bool
  isAiSpeaking :: bool
  inputAudioContextRef :: "AudioContext option"
  outputAudioContextRef :: "AudioContext option"
  inputSourceRef :: "MediaStreamAudioSourceNode option"
  processorRef :: "ScriptProcessorNode option"
  outputNodeRef :: "GainNode option"
  sessionPromiseRef :: "nat option"
  streamRef :: "MediaStream option"
  nextStartTimeRef :: real
  sourcesRef :: "nat list"
  heap :: "BufferSource list"
  closeRequests :: "nat list"
  outbox :: "(nat \<times> PcmBlob) list"
  alerts :: "string list"
  pending :: "pending_decode list"
  contextsOpened :: nat

text \<open>The state of a freshly mounted component (lines 40 to 58).\<close>

definition initial :: app where
  "initial = \<lparr> status = DISCONNECTED, hasPermission = False, isUserSpeaking = False,
     isAiSpeaking = False, inputAudioContextRef = None, outputAudioContextRef = None,
     inputSourceRef = None, processorRef = None, outputNodeRef = None,
     sessionPromiseRef = None, streamRef = None, nextStartTimeRef = 0, sourcesRef = [],
     heap = [], closeRequests = [], outbox = [], alerts = [], pending = [],
     contextsOpened = 0 \<rparr>"

text \<open>
  A handler either returns or throws; what it assigned before throwing stays assigned.
  An outcome is the error, if any, and the state the handler leaves behind.
\<close>

type_synonym outcome = "error option \<times> app"

fun steps :: "(app \<Rightarrow> outcome) list \<Rightarrow> app \<Rightarrow> outcome" where
  "steps [] s = (None, s)"
| "steps (f # fs) s = (case f s of (Some e, s') \<Rightarrow> (Some e, s') | (None, s') \<Rightarrow> steps fs s')"

section \<open>Inbound messages\<close>

text \<open>
  \<open>base64Audio\<close> is the optional chain of line 182,
  \<open>message.serverContent?.modelTurn?.parts?.[0]?.inlineData?.data\<close>, and
  \<open>interrupted\<close> the truthiness of \<open>message.serverContent?.interrupted\<close> (line 215).
\<close>

definition first_part :: "Part list \<Rightarrow> Part option" where
  "first_part ps = (case ps of [] \<Rightarrow> None | p # _ \<Rightarrow> Some p)"

definition base64Audio :: "LiveServerMessage \<Rightarrow> string option" where
  "base64Audio m =
     Option.bind (serverContent m) (\<lambda>sc.
     Option.bind (sc_modelTurn sc) (\<lambda>mt.
     Option.bind (content_parts mt) (\<lambda>ps.
     Option.bind (first_part ps) (\<lambda>p.
     Option.bind (part_inlineData p) inl_data))))"

definition interrupted :: "LiveServerMessage \<Rightarrow> bool" where
  "interrupted m = (case serverContent m of None \<Rightarrow> False | Some sc \<Rightarrow> sc_interrupted sc = Some True)"

text \<open>The guard of line 184: a non-empty string and both output refs set.\<close>

definition carries_audio :: "LiveServerMessage \<Rightarrow> bool" where
  "carries_audio m = (case base64Audio m of None \<Rightarrow> False | Some b \<Rightarrow> b \<noteq> [])"

definition output_ready :: "app \<Rightarrow> bool" where
  "output_ready s = (outputAudioContextRef s \<noteq> None \<and> outputNodeRef s \<noteq> None)"

section \<open>The playback scheduler inside \<open>onmessage\<close>\<close>

text \<open>
  Lines 185 to 189, the part of the audio branch before the \<open>await\<close>:
  \<open>setIsAiSpeaking(true)\<close> and
  \<open>nextStartTimeRef.current = Math.max(nextStartTimeRef.current, ctx.currentTime)\<close>.
  \<open>now\<close> is the reading of \<open>ctx.currentTime\<close>.
\<close>

definition schedule_begin :: "real \<Rightarrow> app \<Rightarrow> app" where
  "schedule_begin now s =
     s\<lparr> isAiSpeaking := True, nextStartTimeRef := max (nextStartTimeRef s) now \<rparr>"

text \<open>
  Line 191: the decoder is called and the handler waits for what it settles to.
\<close>

definition suspend :: "error + AudioBuffer \<Rightarrow> real \<Rightarrow> LiveServerMessage \<Rightarrow> app \<Rightarrow> app" where
  "suspend r now m s =
     s\<lparr> pending := pending s @ [\<lparr> pd_message = m, pd_clock = now,
                                     pd_context = contextsOpened s, pd_result = r \<rparr>] \<rparr>"

text \<open>
  Lines 198 to 211, after the decoded buffer has arrived: a new source node is created
  on \<open>ctx\<close> and connected to \<open>outputNodeRef.current\<close>, which throws when the gain node
  belongs to a context created by a later \<open>connect\<close>; the node is started at the value
  \<open>nextStartTimeRef.current\<close> has by now, the ref is advanced by the buffer's duration
  and the node is added to the set. A node that was never started is not kept in
  \<open>heap\<close>: nothing refers to it.
\<close>

definition set_add :: "nat \<Rightarrow> nat list \<Rightarrow> nat list" where
  "set_add x xs = (if x \<in> set xs then xs else xs @ [x])"

definition schedule_resume :: "pending_decode \<Rightarrow> AudioBuffer \<Rightarrow> app \<Rightarrow> outcome" where
  "schedule_resume p buf s =
     (case outputNodeRef s of
        None \<Rightarrow> (Some TypeError, s)
      | Some g \<Rightarrow>
          if pd_context p \<noteq> contextsOpened s then (Some InvalidAccessError, s)
          else
            (let source = \<lparr> src_buffer = buf, src_start = Some (nextStartTimeRef s),
                             src_stopped = False, src_clock = pd_clock p \<rparr>;
                 h = length (heap s)
             in (None, s\<lparr> heap := heap s @ [source],
                          nextStartTimeRef := fadd (nextStartTimeRef s) (duration buf),
                          sourcesRef := set_add h (sourcesRef s) \<rparr>)))"

text \<open>
  \<open>stop()\<close> on a source node throws \<open>InvalidStateError\<close> when the node was never
  started. \<open>stop_at\<close> is the call through a handle.
\<close>

definition stop :: "BufferSource \<Rightarrow> error + BufferSource" where
  "stop n = (case src_start n of None \<Rightarrow> Inl InvalidStateError
             | Some t \<Rightarrow> Inr (n\<lparr> src_stopped := True \<rparr>))"

definition stop_at :: "nat \<Rightarrow> BufferSource list \<Rightarrow> error + BufferSource list" where
  "stop_at h ns =
     (if h < length ns
      then (case stop (ns ! h) of Inl e \<Rightarrow> Inl e | Inr n \<Rightarrow> Inr (ns[h := n]))
      else Inl DanglingHandle)"

text \<open>
  Line 217, \<open>sourcesRef.current.forEach(s => s.stop())\<close>: the first throw ends the loop
  and leaves the nodes stopped so far stopped.
\<close>

fun stop_each :: "nat list \<Rightarrow> BufferSource list \<Rightarrow> error option \<times> BufferSource list" where
  "stop_each [] ns = (None, ns)"
| "stop_each (h # hs) ns =
     (case stop_at h ns of Inl e \<Rightarrow> (Some e, ns) | Inr ns' \<Rightarrow> stop_each hs ns')"

text \<open>Lines 215 to 221, the interruption branch.\<close>

definition handle_interruption :: "app \<Rightarrow> outcome" where
  "handle_interruption s =
     (case stop_each (sourcesRef s) (heap s) of
        (Some e, ns) \<Rightarrow> (Some e, s\<lparr> heap := ns \<rparr>)
      | (None, ns) \<Rightarrow>
          (None, s\<lparr> heap := ns, sourcesRef := [], nextStartTimeRef := 0,
                    isAiSpeaking := False \<rparr>))"

definition interruption_branch :: "LiveServerMessage \<Rightarrow> app \<Rightarrow> outcome" where
  "interruption_branch m s = (if interrupted m then handle_interruption s else (None, s))"

text \<open>
  \<open>onmessage\<close> (lines 180 to 222) runs in two parts. \<open>decodeChunk\<close> stands for
  \<open>decodeAudioData(decode(base64Audio), ctx, 24000, 1)\<close> of \<open>utils/audioUtils\<close>;
  it is a parameter, so that what follows holds for every decoder.

  \<open>onmessage\<close> is what the call of the handler does before it returns to its caller.
  When the guard of line 184 holds, that is lines 185 to 191, and the rest is left
  pending; otherwise it is the interruption branch, and nothing is left.

  \<open>onmessage_resume k\<close> is the rest of the handler for the \<open>k\<close>-th pending decode, run
  when the decoder has settled: when it settled to an error, the handler rejects and
  the interruption branch is not reached; otherwise lines 198 to 211 run, and then
  the interruption branch of the same message. Between \<open>onmessage\<close> and
  \<open>onmessage_resume\<close> any other handler may run.
\<close>

definition onmessage ::
  "(string \<Rightarrow> error + AudioBuffer) \<Rightarrow> real \<Rightarrow> LiveServerMessage \<Rightarrow> app \<Rightarrow> outcome" where
  "onmessage decodeChunk now m s =
     (case base64Audio m of
        None \<Rightarrow> interruption_branch m s
      | Some b \<Rightarrow>
          if b \<noteq> [] \<and> output_ready s
          then (None, suspend (decodeChunk b) now m (schedule_begin now s))
          else interruption_branch m s)"

definition onmessage_resume :: "nat \<Rightarrow> app \<Rightarrow> outcome" where
  "onmessage_resume k s =
     (if k < length (pending s)
      then (let p = pending s ! k;
                s1 = s\<lparr> pending := take k (pending s) @ drop (Suc k) (pending s) \<rparr>
            in case pd_result p of
                 Inl e \<Rightarrow> (Some e, s1)
               | Inr buf \<Rightarrow> steps [schedule_resume p buf, interruption_branch (pd_message p)] s1)
      else (None, s))"


text \<open>
  The listener of lines 202 to 207, run when the node behind handle \<open>h\<close> fires
  \<open>ended\<close>: the handle leaves the set, and the indicator is cleared when the set is empty.
\<close>

definition onended :: "nat \<Rightarrow> app \<Rightarrow> app" where
  "onended h s =
     (let srcs = removeAll h (sourcesRef s)
      in if length srcs = 0 then s\<lparr> sourcesRef := srcs, isAiSpeaking := False \<rparr>
         else s\<lparr> sourcesRef := srcs \<rparr>)"

section \<open>Teardown\<close>

text \<open>
  The loop of lines 84 to 86, \<open>try { source.stop(); } catch (e) {}\<close> for each handle:
  a throw is swallowed and the loop goes on with the next handle.
\<close>

fun stop_each_caught :: "nat list \<Rightarrow> BufferSource list \<Rightarrow> BufferSource list" where
  "stop_each_caught [] ns = ns"
| "stop_each_caught (h # hs) ns =
     stop_each_caught hs (case stop_at h ns of Inl e \<Rightarrow> ns | Inr ns' \<Rightarrow> ns')"

text \<open>
  Lines 78 to 81: when a session promise is held, \<open>session.close()\<close> is queued on it
  (its rejection is swallowed by \<open>.catch\<close>) and the ref is nulled.
\<close>

definition close_session :: "app \<Rightarrow> outcome" where
  "close_session s =
     (case sessionPromiseRef s of
        None \<Rightarrow> (None, s)
      | Some p \<Rightarrow> (None, s\<lparr> closeRequests := closeRequests s @ [p], sessionPromiseRef := None \<rparr>))"

text \<open>Lines 84 to 87: stop every scheduled source, then clear the set.\<close>

definition stop_scheduled :: "app \<Rightarrow> outcome" where
  "stop_scheduled s =
     (None, s\<lparr> heap := stop_each_caught (sourcesRef s) (heap s), sourcesRef := [] \<rparr>)"

text \<open>
  Lines 90 to 99: the processor is disconnected and loses its callback, the stream
  source is disconnected, every track of the stream is stopped. Each is guarded by its
  ref; the refs themselves are kept.
\<close>

definition disconnect_processor :: "app \<Rightarrow> outcome" where
  "disconnect_processor s =
     (case processorRef s of
        None \<Rightarrow> (None, s)
      | Some p \<Rightarrow>
          (None, s\<lparr> processorRef := Some (p\<lparr> proc_connected := False, proc_onaudioprocess := False \<rparr>) \<rparr>))"

definition disconnect_input :: "app \<Rightarrow> outcome" where
  "disconnect_input s =
     (case inputSourceRef s of
        None \<Rightarrow> (None, s)
      | Some n \<Rightarrow> (None, s\<lparr> inputSourceRef := Some (n\<lparr> mss_connected := False \<rparr>) \<rparr>))"

definition stop_tracks :: "app \<Rightarrow> outcome" where
  "stop_tracks s =
     (case streamRef s of
        None \<Rightarrow> (None, s)
      | Some st \<Rightarrow> (None, s\<lparr> streamRef := Some (st\<lparr> tracks := map (\<lambda>t. Ended) (tracks st) \<rparr>) \<rparr>))"

text \<open>
  Lines 102 to 107: \<open>if (ref.current?.state !== 'closed') ref.current?.close()\<close>.
  With a null ref the test succeeds and the optional call does nothing. \<open>close()\<close>
  returns a promise and does not throw; the context counts as closed from the call on.
\<close>

definition close_context :: "AudioContext option \<Rightarrow> AudioContext option" where
  "close_context r =
     (case r of
        None \<Rightarrow> None
      | Some c \<Rightarrow> if ctx_state c \<noteq> Closed then Some (c\<lparr> ctx_state := Closed \<rparr>) else Some c)"

definition close_contexts :: "app \<Rightarrow> outcome" where
  "close_contexts s =
     (None, s\<lparr> inputAudioContextRef := close_context (inputAudioContextRef s),
               outputAudioContextRef := close_context (outputAudioContextRef s) \<rparr>)"

text \<open>Lines 109 to 111.\<close>

definition reset_indicators :: "app \<Rightarrow> outcome" where
  "reset_indicators s =
     (None, s\<lparr> status := DISCONNECTED, isUserSpeaking := False, isAiSpeaking := False \<rparr>)"

text \<open>\<open>cleanup\<close> (lines 77 to 112), also the \<open>onDisconnect\<close> of the controls.\<close>

definition cleanup :: "app \<Rightarrow> outcome" where
  "cleanup s =
     steps [close_session, stop_scheduled, disconnect_processor, disconnect_input,
            stop_tracks, close_contexts, reset_indicators] s"

section \<open>Session controller\<close>

text \<open>
  Line 16, \<open>process.env.API_KEY || ''\<close>: an unset variable and an empty one both give
  the empty string.
\<close>

definition API_KEY :: "string option \<Rightarrow> string" where
  "API_KEY env = (case env of None \<Rightarrow> [] | Some k \<Rightarrow> if k = [] then [] else k)"

text \<open>Lines 121 to 128: the status and the two new contexts with the new gain node.\<close>

definition open_contexts :: "app \<Rightarrow> app" where
  "open_contexts s =
     s\<lparr> status := CONNECTING,
        inputAudioContextRef := Some \<lparr> ctx_sampleRate = 16000, ctx_state = Running \<rparr>,
        outputAudioContextRef := Some \<lparr> ctx_sampleRate = 24000, ctx_state = Running \<rparr>,
        outputNodeRef := Some \<lparr> gain_connected = True \<rparr>,
        contextsOpened := Suc (contextsOpened s) \<rparr>"

text \<open>Lines 227 to 231, and the \<open>catch\<close> of lines 235 to 239, which has the same body.\<close>

definition onerror :: "app \<Rightarrow> outcome" where
  "onerror s = steps [\<lambda>s. (None, s\<lparr> status := ERROR \<rparr>), cleanup] s"

text \<open>
  \<open>connect\<close> (lines 114 to 240). \<open>env\<close> is the environment variable, \<open>media\<close> what
  \<open>getUserMedia\<close> settles to, \<open>session\<close> the session that \<open>ai.live.connect\<close> promises.
  Of the calls inside \<open>try\<close>, the one modelled as failing is \<open>getUserMedia\<close>: its
  rejection enters the \<open>catch\<close> block with both contexts already created. The function
  is taken to run to its end before the next event is handled.
\<close>

definition connect :: "string option \<Rightarrow> error + MediaStream \<Rightarrow> nat \<Rightarrow> app \<Rightarrow> outcome" where
  "connect env media session s =
     (if API_KEY env = []
      then (None, s\<lparr> alerts := alerts s @ [''API Key is missing in environment variables''] \<rparr>)
      else (case media of
              Inl e \<Rightarrow> onerror (open_contexts s)
            | Inr stream \<Rightarrow>
                (None, (open_contexts s)\<lparr> streamRef := Some stream,
                                          sessionPromiseRef := Some session \<rparr>)))"

text \<open>\<open>onopen\<close> (lines 148 to 179) without the body of the capture callback.\<close>

definition onopen :: "app \<Rightarrow> app" where
  "onopen s =
     (let s1 = s\<lparr> status := CONNECTED \<rparr>
      in if inputAudioContextRef s1 = None \<or> streamRef s1 = None then s1
         else s1\<lparr> inputSourceRef := Some \<lparr> mss_connected = True \<rparr>,
                  processorRef := Some \<lparr> proc_bufferSize = 4096, proc_connected = True,
                                          proc_onaudioprocess = True \<rparr> \<rparr>)"

text \<open>\<open>onclose\<close> (lines 223 to 226).\<close>

definition onclose :: "app \<Rightarrow> app" where
  "onclose s = s\<lparr> status := DISCONNECTED \<rparr>"

text \<open>
  The capture callback (lines 159 to 175). The loop of line 164,
  \<open>sum += inputData[i] * inputData[i]\<close>, multiplies and adds in double arithmetic from
  left to right; the samples of the \<open>Float32Array\<close> are doubles. Line 165 is
  \<open>Math.sqrt(sum / inputData.length)\<close>; the mean of squares is never negative. With an
  empty frame it computes \<open>0 / 0\<close>, which is \<open>NaN\<close> and compares false with every
  number: \<open>rms\<close> is \<open>None\<close> there. \<open>threshold\<close> is the double that the literal \<open>0.02\<close>
  of line 166 denotes.
  \<open>createBlob\<close> stands for \<open>createPcmBlob\<close> of \<open>utils/audioUtils\<close>; it is a parameter,
  so that what is proved of the callback holds for every encoder.
\<close>

definition sum_squares :: "real list \<Rightarrow> real" where
  "sum_squares inputData = foldl (\<lambda>sum x. fadd sum (fmul x x)) 0 inputData"

definition rms :: "real list \<Rightarrow> real option" where
  "rms inputData =
     (if length inputData = 0 then None
      else Some (fsqrt (fdiv (sum_squares inputData) (real (length inputData)))))"

definition threshold :: real where
  "threshold = rnd (1 / 50)"

definition above_threshold :: "real option \<Rightarrow> bool" where
  "above_threshold r = (case r of None \<Rightarrow> False | Some v \<Rightarrow> v > threshold)"

definition onaudioprocess :: "(real list \<Rightarrow> PcmBlob) \<Rightarrow> real list \<Rightarrow> app \<Rightarrow> app" where
  "onaudioprocess createBlob inputData s =
     (let s1 = s\<lparr> isUserSpeaking := above_threshold (rms inputData) \<rparr>;
          pcmBlob = createBlob inputData
      in case sessionPromiseRef s1 of
           None \<Rightarrow> s1
         | Some p \<Rightarrow> s1\<lparr> outbox := outbox s1 @ [(p, pcmBlob)] \<rparr>)"

section \<open>Events\<close>

text \<open>
  What the host environment can make the component do: the permission check of the
  mount effect settles (lines 62 to 69); the user presses the microphone button
  (\<open>connect\<close>); the service calls one of the four callbacks; the decoder settles for
  the \<open>k\<close>-th pending decode and \<open>onmessage\<close> goes on; a source node fires \<open>ended\<close>; the
  processor delivers a captured frame; the user presses the stop button or the
  component unmounts (\<open>cleanup\<close>). \<open>step\<close> runs the handler of one event and keeps the
  state it leaves behind, \<open>run\<close> handles a list of events in order. Every event is
  allowed in every state, which covers more than the environment does.
\<close>

datatype event =
    PermissionChecked bool
  | Connect "string option" "error + MediaStream" nat
  | SessionOpened
  | Message real LiveServerMessage
  | DecodeSettled nat
  | SourceEnded nat
  | Captured "real list"
  | SessionClosed
  | SessionError
  | Disconnect

fun step ::
  "(string \<Rightarrow> error + AudioBuffer) \<Rightarrow> (real list \<Rightarrow> PcmBlob) \<Rightarrow> event \<Rightarrow> app \<Rightarrow> app" where
  "step decodeChunk createBlob (PermissionChecked granted) s = s\<lparr> hasPermission := granted \<rparr>"
| "step decodeChunk createBlob (Connect env media session) s = snd (connect env media session s)"
| "step decodeChunk createBlob SessionOpened s = onopen s"
| "step decodeChunk createBlob (Message now m) s = snd (onmessage decodeChunk now m s)"
| "step decodeChunk createBlob (DecodeSettled k) s = snd (onmessage_resume k s)"
| "step decodeChunk createBlob (SourceEnded h) s = onended h s"
| "step decodeChunk createBlob (Captured inputData) s = onaudioprocess createBlob inputData s"
| "step decodeChunk createBlob SessionClosed s = onclose s"
| "step decodeChunk createBlob SessionError s = snd (onerror s)"
| "step decodeChunk createBlob Disconnect s = snd (cleanup s)"

fun run ::
  "(string \<Rightarrow> error + AudioBuffer) \<Rightarrow> (real list \<Rightarrow> PcmBlob) \<Rightarrow> event list \<Rightarrow> app \<Rightarrow> app" where
  "run decodeChunk createBlob [] s = s"
| "run decodeChunk createBlob (ev # evs) s =
     run decodeChunk createBlob evs (step decodeChunk createBlob ev s)"

text \<open>
  The messages that carry the interruption flag, and the events whose clock reading,
  if they take one, is a reading of \<open>ctx.currentTime\<close>.
\<close>

fun interrupts :: "event \<Rightarrow> bool" where
  "interrupts (Message now m) = interrupted m"
| "interrupts ev = False"

fun clocked :: "event \<Rightarrow> bool" where
  "clocked (Message now m) = is_clock now"
| "clocked ev = True"

section \<open>Sample codec\<close>

text \<open>
  \<open>utils/audioUtils\<close>, which exports \<open>createPcmBlob\<close>, \<open>decode\<close> and \<open>decodeAudioData\<close>,
  is not among the source files. This section models the three functions from section
  4.1 of the specification. Bytes are natural numbers below 256; 16-bit samples are
  integers, with the wrap-around modulo \<open>2 ^ 16\<close> written out.
\<close>

text \<open>Modelled from the spec: the base64 alphabet used by \<open>createPcmBlob\<close> and \<open>decode\<close>
  of the missing \<open>utils/audioUtils\<close> ("base64-encodes the result").\<close>

definition b64chars :: string where
  "b64chars = ''ABCDEFGHIJKLMNOPQRSTUVWXYZabcdefghijklmnopqrstuvwxyz0123456789+/''"

text \<open>Modelled from the spec: the character of a 6-bit group, for the base64 step of the
  missing \<open>createPcmBlob\<close>.\<close>

definition enc_char :: "nat \<Rightarrow> char" where
  "enc_char i = b64chars ! (i mod 64)"

text \<open>Modelled from the spec: the position of a character in the alphabet, for the
  "inverse base64 transform" of the missing \<open>decode\<close>.\<close>

fun index_of :: "char \<Rightarrow> string \<Rightarrow> nat option" where
  "index_of c [] = None"
| "index_of c (d # ds) = (if c = d then Some 0 else map_option Suc (index_of c ds))"

text \<open>Modelled from the spec: the 6-bit group of a character, \<open>None\<close> for a character
  outside the alphabet; part of the missing \<open>decode\<close>.\<close>

definition dec_char :: "char \<Rightarrow> nat option" where
  "dec_char c = index_of c b64chars"

text \<open>Modelled from the spec: base64 encoding of a byte list, three bytes to four
  characters with \<open>=\<close> padding; the last step of the missing \<open>createPcmBlob\<close>.\<close>

fun b64_encode :: "nat list \<Rightarrow> string" where
  "b64_encode (a # b # c # rest) =
     enc_char (a div 4) # enc_char ((a mod 4) * 16 + b div 16) #
     enc_char ((b mod 16) * 4 + c div 64) # enc_char (c mod 64) # b64_encode rest"
| "b64_encode [a, b] =
     [enc_char (a div 4), enc_char ((a mod 4) * 16 + b div 16), enc_char ((b mod 16) * 4),
      CHR ''='']"
| "b64_encode [a] = [enc_char (a div 4), enc_char ((a mod 4) * 16), CHR ''='', CHR ''='']"
| "b64_encode [] = []"

text \<open>Modelled from the spec: base64 decoding, four characters to three bytes, padding
  accepted in the last group only; a string that is not base64 is malformed input and
  gives \<open>CodecError\<close>. This is the body of the missing \<open>decode\<close>.\<close>

fun b64_decode :: "string \<Rightarrow> error + nat list" where
  "b64_decode (c0 # c1 # c2 # c3 # rest) =
     (if rest = [] \<and> c3 = CHR ''='' \<and> c2 = CHR ''=''
      then (case (dec_char c0, dec_char c1) of
              (Some x0, Some x1) \<Rightarrow> Inr [(x0 * 4 + x1 div 16) mod 256]
            | _ \<Rightarrow> Inl CodecError)
      else if rest = [] \<and> c3 = CHR ''=''
      then (case (dec_char c0, dec_char c1, dec_char c2) of
              (Some x0, Some x1, Some x2) \<Rightarrow>
                Inr [(x0 * 4 + x1 div 16) mod 256, (x1 * 16 + x2 div 4) mod 256]
            | _ \<Rightarrow> Inl CodecError)
      else (case (dec_char c0, dec_char c1, dec_char c2, dec_char c3) of
              (Some x0, Some x1, Some x2, Some x3) \<Rightarrow>
                (case b64_decode rest of
                   Inl e \<Rightarrow> Inl e
                 | Inr bs \<Rightarrow>
                     Inr ((x0 * 4 + x1 div 16) mod 256 # (x1 * 16 + x2 div 4) mod 256 #
                          (x2 * 64 + x3) mod 256 # bs))
            | _ \<Rightarrow> Inl CodecError))"
| "b64_decode [] = Inr []"
| "b64_decode _ = Inl CodecError"

text \<open>Modelled from the spec: the conversion of a number to an integer by the store into
  a 16-bit signed array of the missing \<open>createPcmBlob\<close>. The spec names no rounding; the
  store of the source language drops the fraction (towards zero).\<close>

definition js_trunc :: "real \<Rightarrow> int" where
  "js_trunc r = (if r < 0 then \<lceil>r\<rceil> else \<lfloor>r\<rfloor>)"

text \<open>Modelled from the spec: the 16-bit signed value stored by the missing
  \<open>createPcmBlob\<close>, the truncated number wrapped into \<open>- 32768 .. 32767\<close>.\<close>

definition toInt16 :: "real \<Rightarrow> int" where
  "toInt16 r = (js_trunc r + 32768) mod 65536 - 32768"

text \<open>Modelled from the spec: one sample of the missing \<open>createPcmBlob\<close>, "clamping to
  [-1,1] and scaling by 32767 (positive) or 32768 (negative)".\<close>

definition float_to_int16 :: "real \<Rightarrow> int" where
  "float_to_int16 x =
     (let s = max (- 1) (min 1 x)
      in toInt16 (if s < 0 then s * 32768 else s * 32767))"

text \<open>Modelled from the spec: the two bytes of a 16-bit sample, low byte first
  ("16-bit signed little-endian"), in the missing \<open>createPcmBlob\<close>.\<close>

definition int16_bytes :: "int \<Rightarrow> nat list" where
  "int16_bytes q = (let u = nat (q mod 65536) in [u mod 256, u div 256])"

text \<open>Modelled from the spec: "packs the bytes", the byte buffer of a frame in the
  missing \<open>createPcmBlob\<close>.\<close>

definition pcm_bytes :: "real list \<Rightarrow> nat list" where
  "pcm_bytes samples = concat (map (\<lambda>x. int16_bytes (float_to_int16 x)) samples)"

text \<open>Modelled from the spec: \<open>createPcmBlob\<close> of the missing \<open>utils/audioUtils\<close>, the
  spec's \<open>encode\<close>: the packed samples in base64 "with a declared MIME type
  identifying it as 16 kHz mono PCM16".\<close>

definition createPcmBlob :: "real list \<Rightarrow> PcmBlob" where
  "createPcmBlob samples =
     \<lparr> blob_data = b64_encode (pcm_bytes samples), blob_mimeType = ''audio/pcm;rate=16000'' \<rparr>"

text \<open>Modelled from the spec: \<open>decode\<close> of the missing \<open>utils/audioUtils\<close>, "inverse
  base64 transform only; no resampling".\<close>

definition decode :: "string \<Rightarrow> error + nat list" where
  "decode base64 = b64_decode base64"

text \<open>Modelled from the spec: a 16-bit signed sample from its low and high byte, in the
  missing \<open>decodeAudioData\<close> ("reinterprets the byte buffer as 16-bit signed
  little-endian samples").\<close>

definition int16_of :: "nat \<Rightarrow> nat \<Rightarrow> int" where
  "int16_of lo hi = (let u = int lo + 256 * int hi in if 32768 \<le> u then u - 65536 else u)"

text \<open>Modelled from the spec: the samples of a byte buffer in the missing
  \<open>decodeAudioData\<close>; a buffer of odd length is the spec's "truncated frame".\<close>

fun int16s_of_bytes :: "nat list \<Rightarrow> error + int list" where
  "int16s_of_bytes (lo # hi # rest) =
     (case int16s_of_bytes rest of Inl e \<Rightarrow> Inl e | Inr qs \<Rightarrow> Inr (int16_of lo hi # qs))"
| "int16s_of_bytes [] = Inr []"
| "int16s_of_bytes [b] = Inl CodecError"

text \<open>Modelled from the spec: \<open>decodeAudioData\<close> of the missing \<open>utils/audioUtils\<close>, the
  spec's \<open>decodePlayable(byte_buffer, target_context, sample_rate, channel_count)\<close>:
  each sample divided by 32768, de-interleaved by stride into one list per channel.
  The spec does not say what zero channels give; here they are a \<open>CodecError\<close>.\<close>

definition decodeAudioData ::
  "nat list \<Rightarrow> AudioContext \<Rightarrow> nat \<Rightarrow> nat \<Rightarrow> error + AudioBuffer" where
  "decodeAudioData bytes ctx sampleRate numChannels =
     (case int16s_of_bytes bytes of
        Inl e \<Rightarrow> Inl e
      | Inr qs \<Rightarrow>
          if numChannels = 0 then Inl CodecError
          else
            (let frameCount = length qs div numChannels
             in Inr \<lparr> buf_sampleRate = sampleRate,
                      buf_channels =
                        map (\<lambda>channel.
                               map (\<lambda>i. real_of_int (qs ! (i * numChannels + channel)) / 32768)
                                 [0..<frameCount])
                          [0..<numChannels] \<rparr>))"

text \<open>
  The decoder that \<open>onmessage\<close> applies to a payload (lines 191 to 196):
  \<open>decodeAudioData(decode(base64Audio), ctx, 24000, 1)\<close>.
\<close>

definition decodeInbound :: "AudioContext \<Rightarrow> string \<Rightarrow> error + AudioBuffer" where
  "decodeInbound ctx base64 =
     (case decode base64 of Inl e \<Rightarrow> Inl e | Inr bytes \<Rightarrow> decodeAudioData bytes ctx 24000 1)"

text \<open>
  The 16-bit quantization grid of the round-trip property: the numbers \<open>k / 32768\<close>
  in \<open>[-1, 1]\<close> with \<open>k\<close> an integer.
\<close>

definition on_grid :: "real \<Rightarrow> bool" where
  "on_grid x = (- 1 \<le> x \<and> x \<le> 1 \<and> real_of_int \<lfloor>x * 32768\<rfloor> = x * 32768)"

section \<open>Well-formed handles and the chunks scheduled by a run\<close>

text \<open>
  Every handle in the set denotes a node on which \<open>start\<close> was called. \<open>onmessage\<close>
  adds a handle only after line 209, so this holds in every state the program reaches.
\<close>

definition handles_started :: "app \<Rightarrow> bool" where
  "handles_started s =
     list_all (\<lambda>h. h < length (heap s) \<and> src_start (heap s ! h) \<noteq> None) (sourcesRef s)"

definition all_stopped :: "nat list \<Rightarrow> BufferSource list \<Rightarrow> bool" where
  "all_stopped hs ns = list_all (\<lambda>h. h < length ns \<and> src_stopped (ns ! h)) hs"

text \<open>The source nodes created between two states, oldest first.\<close>

definition scheduled :: "app \<Rightarrow> app \<Rightarrow> BufferSource list" where
  "scheduled s s' = drop (length (heap s)) (heap s')"

definition start_time :: "BufferSource \<Rightarrow> real" where
  "start_time n = (case src_start n of None \<Rightarrow> 0 | Some t \<Rightarrow> t)"

text \<open>
  The end of a chunk as line 210 computes it: the start plus the duration, in double
  arithmetic.
\<close>

definition end_time :: "BufferSource \<Rightarrow> real" where
  "end_time n = fadd (start_time n) (duration (src_buffer n))"

text \<open>
  A list of chunks is back to back when each starts no earlier than its predecessor
  ends; it is on time when each was started and starts no earlier than the clock
  reading its handler took.
\<close>

fun back_to_back :: "BufferSource list \<Rightarrow> bool" where
  "back_to_back [] = True"
| "back_to_back [n] = True"
| "back_to_back (n # n' # ns) = (end_time n \<le> start_time n' \<and> back_to_back (n' # ns))"

definition on_time :: "BufferSource list \<Rightarrow> bool" where
  "on_time ns = list_all (\<lambda>n. src_start n \<noteq> None \<and> src_clock n \<le> start_time n) ns"

text \<open>
  What teardown is to achieve: no handle left in the set, no session promise held, the
  processor without callback and disconnected, the stream source disconnected, every
  track ended, both contexts closed (a ref that was never set has nothing to release).
\<close>

definition released :: "app \<Rightarrow> bool" where
  "released s =
     (sourcesRef s = [] \<and> sessionPromiseRef s = None \<and>
      (case processorRef s of None \<Rightarrow> True
         | Some p \<Rightarrow> \<not> proc_connected p \<and> \<not> proc_onaudioprocess p) \<and>
      (case inputSourceRef s of None \<Rightarrow> True | Some n \<Rightarrow> \<not> mss_connected n) \<and>
      (case streamRef s of None \<Rightarrow> True | Some st \<Rightarrow> list_all (\<lambda>t. t = Ended) (tracks st)) \<and>
      (case inputAudioContextRef s of None \<Rightarrow> True | Some c \<Rightarrow> ctx_state c = Closed) \<and>
      (case outputAudioContextRef s of None \<Rightarrow> True | Some c \<Rightarrow> ctx_state c = Closed))"

text \<open>
  What \<open>stop\<close> leaves alone in a node, and the invariant that carries non-overlap
  through a run: every chunk starts at or after a lower bound, at or after its clock
  reading, and the next lower bound is the chunk's end.
\<close>

definition timing :: "BufferSource \<Rightarrow> AudioBuffer \<times> real option \<times> real" where
  "timing n = (src_buffer n, src_start n, src_clock n)"

fun chain :: "real \<Rightarrow> BufferSource list \<Rightarrow> bool" where
  "chain lb [] = True"
| "chain lb (n # ns) =
     (src_start n \<noteq> None \<and> lb \<le> start_time n \<and> src_clock n \<le> start_time n \<and>
      chain (end_time n) ns)"

text \<open>
  The pending decodes are in order when none belongs to a message with the
  interruption flag and each took its clock reading, a reading of \<open>ctx.currentTime\<close>,
  at or before the time at which the next chunk is to start. This holds while
  nothing is pending, and an interruption is what breaks it.
\<close>

definition pending_in_order :: "app \<Rightarrow> bool" where
  "pending_in_order s =
     list_all (\<lambda>p. \<not> interrupted (pd_message p) \<and> is_clock (pd_clock p) \<and>
                    pd_clock p \<le> nextStartTimeRef s) (pending s)"

section \<open>Example states and messages\<close>

text \<open>
  Silence at 24 kHz; a decoder that yields one second of it for the payload
  \<open>''AAAA''\<close>, half a second for \<open>''BBBB''\<close>, seven tenths of a second for \<open>''CCCC''\<close>,
  and throws on anything else; and the messages the service sends: an audio chunk,
  an interruption, a text-only turn.
\<close>

definition silence :: "nat \<Rightarrow> AudioBuffer" where
  "silence frames = \<lparr> buf_sampleRate = 24000, buf_channels = [replicate frames 0] \<rparr>"

definition example_decoder :: "string \<Rightarrow> error + AudioBuffer" where
  "example_decoder b =
     (if b = ''AAAA'' then Inr (silence 24000)
      else if b = ''BBBB'' then Inr (silence 12000)
      else if b = ''CCCC'' then Inr (silence 16800)
      else Inl CodecError)"

definition audio_message :: "string \<Rightarrow> LiveServerMessage" where
  "audio_message b =
     \<lparr> serverContent = Some \<lparr> sc_modelTurn =
           Some \<lparr> content_parts = Some [\<lparr> part_inlineData = Some \<lparr> inl_data = Some b \<rparr> \<rparr>] \<rparr>,
         sc_interrupted = None \<rparr> \<rparr>"

definition interruption_message :: LiveServerMessage where
  "interruption_message =
     \<lparr> serverContent = Some \<lparr> sc_modelTurn = None, sc_interrupted = Some True \<rparr> \<rparr>"

definition text_message :: LiveServerMessage where
  "text_message =
     \<lparr> serverContent = Some \<lparr> sc_modelTurn =
           Some \<lparr> content_parts = Some [\<lparr> part_inlineData = None \<rparr>] \<rparr>,
         sc_interrupted = Some False \<rparr> \<rparr>"

text \<open>
  A session in progress: the state after the permission check, \<open>connect\<close> with a key
  and a granted stream of one track, \<open>onopen\<close>, and one audio chunk of a second
  delivered and decoded at clock time 0.
\<close>

definition live_example :: app where
  "live_example =
     \<lparr> status = CONNECTED, hasPermission = True, isUserSpeaking = False, isAiSpeaking = True,
       inputAudioContextRef = Some \<lparr> ctx_sampleRate = 16000, ctx_state = Running \<rparr>,
       outputAudioContextRef = Some \<lparr> ctx_sampleRate = 24000, ctx_state = Running \<rparr>,
       inputSourceRef = Some \<lparr> mss_connected = True \<rparr>,
       processorRef = Some \<lparr> proc_bufferSize = 4096, proc_connected = True,
                               proc_onaudioprocess = True \<rparr>,
       outputNodeRef = Some \<lparr> gain_connected = True \<rparr>,
       sessionPromiseRef = Some 0,
       streamRef = Some \<lparr> tracks = [Live] \<rparr>,
       nextStartTimeRef = 1, sourcesRef = [0],
       heap = [\<lparr> src_buffer = silence 24000, src_start = Some 0, src_stopped = False,
                 src_clock = 0 \<rparr>],
       closeRequests = [], outbox = [], alerts = [], pending = [], contextsOpened = 1 \<rparr>"

text \<open>The same session right after \<open>onopen\<close>, before any audio has arrived.\<close>

definition ready_example :: app where
  "ready_example =
     live_example\<lparr> isAiSpeaking := False, nextStartTimeRef := 0, sourcesRef := [], heap := [] \<rparr>"

section \<open>Properties of the double arithmetic\<close>

lemma bits_nonpos: "n \<le> 0 \<Longrightarrow> bits n = 0"
  by (simp add: bits.simps [of n])

lemma bits_pos: "0 < n \<Longrightarrow> 1 \<le> bits n"
proof (induction n rule: bits.induct)
  case (1 n)
  show ?case
  proof (cases "n div 2 \<le> 0")
    case True
    with 1 bits_nonpos [OF True] show ?thesis by (simp add: bits.simps [of n])
  next
    case False
    with 1 have "1 \<le> bits (n div 2)" by simp
    with 1 show ?thesis by (simp add: bits.simps [of n])
  qed
qed

text \<open>A positive integer \<open>n\<close> has \<open>bits n\<close> binary digits.\<close>

lemma bits_bounds:
  "0 < n \<Longrightarrow> 2 ^ nat (bits n - 1) \<le> n \<and> n < 2 ^ nat (bits n)"
proof (induction n rule: bits.induct)
  case (1 n)
  show ?case
  proof (cases "n = 1")
    case True
    then show ?thesis by (simp add: bits.simps [of 1] bits_nonpos)
  next
    case False
    with 1 have h: "0 < n div 2" by simp
    with 1 have ih: "2 ^ nat (bits (n div 2) - 1) \<le> n div 2" "n div 2 < 2 ^ nat (bits (n div 2))"
      by simp_all
    from bits_pos [OF h] have p: "1 \<le> bits (n div 2)" .
    from 1 have b: "bits n = bits (n div 2) + 1" by (simp add: bits.simps [of n])
    from p have e: "nat (bits (n div 2)) = Suc (nat (bits (n div 2) - 1))" by simp
    have "(2::int) ^ nat (bits (n div 2)) = 2 * 2 ^ nat (bits (n div 2) - 1)"
      by (simp only: e power_Suc)
    with ih(1) have l: "2 ^ nat (bits n - 1) \<le> n" by (simp add: b)
    from p have e2: "nat (bits n) = Suc (nat (bits (n div 2)))" by (simp add: b)
    from ih(2) have "n div 2 + 1 \<le> 2 ^ nat (bits (n div 2))" by simp
    then have "n < 2 * 2 ^ nat (bits (n div 2))" by linarith
    then have "n < 2 ^ nat (bits n)" by (simp only: e2 power_Suc)
    with l show ?thesis by simp
  qed
qed

text \<open>\<open>binade x\<close> is the exponent of a positive \<open>x\<close>.\<close>

lemma binade_bounds:
  assumes "0 < x"
  shows "2 powi binade x \<le> x" and "x < 2 powi (binade x + 1)"
proof -
  have "2 powi binade x \<le> x \<and> x < 2 powi (binade x + 1)"
  proof (cases "1 \<le> x")
    case True
    then have f: "0 < \<lfloor>x\<rfloor>" by simp
    let ?b = "bits \<lfloor>x\<rfloor>"
    from bits_bounds [OF f] have lo: "2 ^ nat (?b - 1) \<le> \<lfloor>x\<rfloor>" and hi: "\<lfloor>x\<rfloor> < 2 ^ nat ?b"
      by simp_all
    from bits_pos [OF f] have p: "1 \<le> ?b" .
    from True have k: "binade x = ?b - 1" by (simp add: binade_def)
    from p have "(2::real) powi (?b - 1) = 2 ^ nat (?b - 1)"
      by (simp add: power_int_def)
    moreover from lo have "(2::real) ^ nat (?b - 1) \<le> of_int \<lfloor>x\<rfloor>"
      by (metis of_int_le_iff of_int_numeral of_int_power)
    ultimately have 1: "2 powi binade x \<le> x" using k by (simp add: le_floor_iff)
    from p have "(2::real) powi (?b - 1 + 1) = 2 ^ nat ?b"
      by (simp add: power_int_def)
    moreover from hi have "\<lfloor>x\<rfloor> + 1 \<le> 2 ^ nat ?b" by simp
    then have "of_int (\<lfloor>x\<rfloor> + 1) \<le> (2::real) ^ nat ?b"
      by (metis of_int_le_iff of_int_numeral of_int_power)
    then have "x < 2 ^ nat ?b" by linarith
    ultimately have "x < 2 powi (binade x + 1)" using k by simp
    with 1 show ?thesis by simp
  next
    case False
    with assms have x1: "1 < 1 / x" by simp
    let ?n = "\<lceil>1 / x\<rceil> - 1"
    from x1 have n: "0 < ?n" by linarith
    let ?j = "bits ?n"
    from bits_bounds [OF n] have lo: "2 ^ nat (?j - 1) \<le> ?n" and hi: "?n < 2 ^ nat ?j"
      by simp_all
    from bits_pos [OF n] have p: "1 \<le> ?j" .
    from False have k: "binade x = - ?j" by (simp add: binade_def)
    from hi have "\<lceil>1 / x\<rceil> \<le> 2 ^ nat ?j" by simp
    then have "of_int \<lceil>1 / x\<rceil> \<le> (2::real) ^ nat ?j"
      by (metis of_int_le_iff of_int_numeral of_int_power)
    then have "1 / x \<le> 2 ^ nat ?j" by linarith
    with assms have "1 / 2 ^ nat ?j \<le> x"
      by (simp add: field_simps)
    moreover from p have "(2::real) powi (- ?j) = 1 / 2 ^ nat ?j"
      by (simp add: power_int_def field_simps)
    ultimately have 1: "2 powi binade x \<le> x" using k by simp
    from lo have "of_int (2 ^ nat (?j - 1)) \<le> (of_int ?n :: real)"
      by (simp only: of_int_le_iff)
    then have "(2::real) ^ nat (?j - 1) \<le> of_int ?n" by simp
    moreover have "of_int ?n < 1 / x" by linarith
    ultimately have "(2::real) ^ nat (?j - 1) < 1 / x" by linarith
    with assms have "x < 1 / 2 ^ nat (?j - 1)"
      by (simp add: field_simps)
    moreover from p have "(2::real) powi (- ?j + 1) = 1 / 2 ^ nat (?j - 1)"
      by (cases "?j = 1") (simp_all add: power_int_def field_simps)
    ultimately have "x < 2 powi (binade x + 1)" using k by simp
    with 1 show ?thesis by simp
  qed
  then show "2 powi binade x \<le> x" and "x < 2 powi (binade x + 1)" by simp_all
qed

lemma binade_mono:
  assumes "0 < c" and "c \<le> x"
  shows "binade c \<le> binade x"
proof (rule ccontr)
  assume "\<not> binade c \<le> binade x"
  then have "binade x + 1 \<le> binade c" by simp
  then have "(2::real) powi (binade x + 1) \<le> 2 powi binade c"
    by (intro power_int_increasing) simp_all
  moreover from assms have "0 < x" by simp
  note binade_bounds(2) [OF this] binade_bounds(1) [OF assms(1)]
  ultimately show False using assms(2) by linarith
qed

lemma ties_even_ge: "of_int n \<le> y \<Longrightarrow> n \<le> ties_even y"
proof -
  assume "of_int n \<le> y"
  then have "n \<le> \<lfloor>y\<rfloor>" by (simp add: le_floor_iff)
  moreover have "\<lfloor>y\<rfloor> \<le> ties_even y" by (simp add: ties_even_def Let_def)
  ultimately show ?thesis by simp
qed

lemma ulp_pos: "0 < ulp e"
  by (simp add: ulp_def)

lemma ulp_binade: "of_int (2 ^ 52) * ulp e = 2 powi e"
proof -
  have "(2::real) powi e = 2 powi (52 + (e - 52))" by simp
  also have "\<dots> = 2 powi 52 * 2 powi (e - 52)" by (rule power_int_add) simp
  finally show ?thesis by (simp add: ulp_def)
qed

text \<open>Rounding a positive number stays in its binade or reaches the next power of two.\<close>

lemma rnd_pos_ge_binade:
  assumes "0 < x"
  shows "2 powi binade x \<le> rnd_pos x"
proof -
  let ?u = "ulp (binade x)"
  from binade_bounds(1) [OF assms] have "of_int (2 ^ 52) * ?u \<le> x"
    by (simp only: ulp_binade)
  with ulp_pos [of "binade x"] have "of_int (2 ^ 52) \<le> x / ?u"
    by (simp add: pos_le_divide_eq)
  then have "2 ^ 52 \<le> ties_even (x / ?u)" by (rule ties_even_ge)
  then have "of_int (2 ^ 52) \<le> (of_int (ties_even (x / ?u)) :: real)"
    by (simp only: of_int_le_iff)
  with ulp_pos [of "binade x"] have "of_int (2 ^ 52) * ?u \<le> of_int (ties_even (x / ?u)) * ?u"
    by (simp only: mult_le_cancel_right_pos)
  then show ?thesis by (simp only: ulp_binade rnd_pos_def)
qed

lemma rnd_pos_ge:
  assumes "0 < c" and "rnd_pos c = c" and "c \<le> x"
  shows "c \<le> rnd_pos x"
proof (cases "binade c = binade x")
  case True
  let ?u = "ulp (binade x)"
  define n where "n = ties_even (c / ?u)"
  from assms(2) True have c: "c = of_int n * ?u" by (simp add: rnd_pos_def n_def)
  from ulp_pos [of "binade x"] have "c / ?u = of_int n" by (simp add: c)
  moreover from assms(3) ulp_pos [of "binade x"] have "c / ?u \<le> x / ?u"
    by (simp add: divide_le_cancel)
  ultimately have "of_int n \<le> x / ?u" by simp
  then have "n \<le> ties_even (x / ?u)" by (rule ties_even_ge)
  then have "(of_int n :: real) \<le> of_int (ties_even (x / ?u))"
    by (simp only: of_int_le_iff)
  with ulp_pos [of "binade x"] have "of_int n * ?u \<le> of_int (ties_even (x / ?u)) * ?u"
    by (simp only: mult_le_cancel_right_pos)
  with c show ?thesis by (simp add: rnd_pos_def)
next
  case False
  with binade_mono [OF assms(1,3)] have "binade c + 1 \<le> binade x" by simp
  then have "(2::real) powi (binade c + 1) \<le> 2 powi binade x"
    by (intro power_int_increasing) simp_all
  moreover from assms have "0 < x" by simp
  note rnd_pos_ge_binade [OF this] binade_bounds(2) [OF assms(1)]
  ultimately show ?thesis by linarith
qed

lemma rnd_nonneg: "0 \<le> x \<Longrightarrow> 0 \<le> rnd x"
proof (cases "x = 0")
  case True
  then show ?thesis by (simp add: rnd_def)
next
  case False
  assume "0 \<le> x"
  with False have p: "0 < x" by simp
  have "(0::real) < 2 powi binade x" by simp
  with rnd_pos_ge_binade [OF p] have "0 \<le> rnd_pos x" by linarith
  with p show ?thesis by (simp add: rnd_def)
qed

text \<open>
  Rounding is monotone against a double: the rounded value of a number at or above a
  clock reading is at or above that reading.
\<close>

lemma rnd_ge:
  assumes "is_clock c" and "c \<le> x"
  shows "c \<le> rnd x"
proof (cases "c = 0")
  case True
  with assms rnd_nonneg [of x] show ?thesis by simp
next
  case False
  with assms have p: "0 < c" and r: "rnd_pos c = c" and x: "0 < x"
    by (simp_all add: is_clock_def rnd_def split: if_splits)
  from rnd_pos_ge [OF p r assms(2)] x show ?thesis by (simp add: rnd_def)
qed

lemma duration_nonneg: "0 \<le> duration buf"
  by (simp add: duration_def fdiv_def rnd_nonneg)

lemma fadd_ge:
  assumes "is_clock c" and "c \<le> t"
  shows "c \<le> fadd t (duration buf)"
proof -
  from assms(2) duration_nonneg [of buf] have "c \<le> t + duration buf" by simp
  with assms(1) show ?thesis unfolding fadd_def by (rule rnd_ge)
qed

text \<open>The doubles used in the examples, and the double nearest to 0.02.\<close>

lemma rnd_0 [simp]: "rnd 0 = 0"
  by (simp add: rnd_def)

lemma rnd_1 [simp]: "rnd 1 = 1"
  by code_simp

lemma rnd_half [simp]: "rnd (1 / 2) = 1 / 2"
  by code_simp

lemma rnd_examples:
  "rnd (1 / 4) = 1 / 4" "rnd (3 / 2) = 3 / 2" "rnd (5 / 4) = 5 / 4" "rnd (7 / 4) = 7 / 4"
  "rnd 2 = 2" "rnd (5 / 2) = 5 / 2" "rnd 3 = 3" "rnd (7 / 2) = 7 / 2"
  by code_simp+

lemma rnd_tenth: "rnd (1 / 10) = 3602879701896397 / 36028797018963968"
  by code_simp

lemma rnd_seven_tenths: "rnd (7 / 10) = 3152519739159347 / 4503599627370496"
  by code_simp

lemma threshold_value: "threshold = 5764607523034235 / 288230376151711744"
  unfolding threshold_def by code_simp

lemma threshold_above_fiftieth: "1 / 50 < threshold"
  by (simp add: threshold_value)

lemma is_clock_examples:
  "is_clock 0" "is_clock (1 / 4)" "is_clock (1 / 2)" "is_clock 1" "is_clock (3 / 2)" "is_clock 2"
  "is_clock 3"
  by (simp_all add: is_clock_def rnd_examples)

lemma duration_silence:
  "duration (silence 24000) = 1" "duration (silence 12000) = 1 / 2"
  "duration (silence 16800) = 3152519739159347 / 4503599627370496"
  by (simp_all add: duration_def buf_length_def silence_def fdiv_def rnd_seven_tenths)

section \<open>The example states are reached by the handlers\<close>

lemma ready_example_reached:
  "run example_decoder createPcmBlob
     [PermissionChecked True, Connect (Some ''key'') (Inr \<lparr> tracks = [Live] \<rparr>) 0, SessionOpened]
     initial = ready_example"
  by (simp add: onopen_def connect_def API_KEY_def open_contexts_def initial_def
      ready_example_def live_example_def)

lemmas onmessage_unfold =
  onmessage_def onmessage_resume_def interruption_branch_def interrupted_def
  base64Audio_def first_part_def output_ready_def schedule_begin_def suspend_def
  schedule_resume_def set_add_def Let_def

lemmas example_unfold =
  audio_message_def interruption_message_def text_message_def example_decoder_def
  ready_example_def live_example_def

lemma live_example_reached:
  "run example_decoder createPcmBlob [Message 0 (audio_message ''AAAA''), DecodeSettled 0]
     ready_example = live_example"
  by (simp add: onmessage_unfold example_unfold duration_silence fadd_def)

section \<open>Frame property of \<open>onmessage\<close>\<close>

text \<open>
  C10. A message whose first part carries no (non-empty) inline audio and whose
  interruption flag is not set leaves the whole state as it was, and the handler
  returns normally: in particular \<open>nextStartTimeRef\<close>, \<open>sourcesRef\<close>, \<open>status\<close> and
  both speaking indicators keep their values.
\<close>

theorem onmessage_frame:
  assumes "\<not> carries_audio m" and "\<not> interrupted m"
  shows "onmessage decodeChunk now m s = (None, s)"
  using assms
  by (simp add: onmessage_def carries_audio_def interruption_branch_def split: option.splits)

theorem onmessage_frame_witness:
  "\<not> carries_audio text_message \<and> \<not> interrupted text_message \<and>
   onmessage example_decoder 2 text_message live_example = (None, live_example)"
  using onmessage_frame [of text_message example_decoder 2 live_example]
  by (simp add: carries_audio_def interrupted_def text_message_def base64Audio_def first_part_def)

section \<open>Teardown\<close>

lemmas cleanup_unfold =
  cleanup_def close_session_def stop_scheduled_def disconnect_processor_def
  disconnect_input_def stop_tracks_def close_contexts_def reset_indicators_def

lemma cleanup_returns: "fst (cleanup s) = None"
  by (simp add: cleanup_unfold split: option.splits)

lemma cleanup_fields:
  "status (snd (cleanup s)) = DISCONNECTED"
  "sourcesRef (snd (cleanup s)) = []"
  "\<not> isUserSpeaking (snd (cleanup s))"
  "\<not> isAiSpeaking (snd (cleanup s))"
  by (simp_all add: cleanup_unfold split: option.splits)

lemma cleanup_released: "released (snd (cleanup s))"
  by (simp add: cleanup_unfold released_def close_context_def list_all_iff split: option.splits)

lemma cleanup_again: "cleanup (snd (cleanup s)) = cleanup s"
  by (simp add: cleanup_unfold close_context_def split: option.splits)

lemma cleanup_initial: "cleanup initial = (None, initial)"
  by (simp add: cleanup_unfold close_context_def initial_def)

text \<open>
  C6. From every state \<open>cleanup\<close> returns normally with a state \<open>s'\<close> on which a second
  \<open>cleanup\<close> returns normally and changes nothing; in \<open>s'\<close> the status is
  \<open>DISCONNECTED\<close>, the set of active sources is empty, both speaking indicators are
  off and every resource is released. Before any resource was created, in the
  initial state, \<open>cleanup\<close> returns normally and changes nothing.
\<close>

theorem cleanup_idempotent:
  "\<exists>s'. cleanup s = (None, s') \<and> cleanup s' = (None, s') \<and>
        status s' = DISCONNECTED \<and> sourcesRef s' = [] \<and>
        \<not> isUserSpeaking s' \<and> \<not> isAiSpeaking s' \<and> released s' \<and>
        cleanup initial = (None, initial)"
proof -
  let ?s' = "snd (cleanup s)"
  have 1: "cleanup s = (None, ?s')"
    using cleanup_returns [of s] by (simp add: prod_eq_iff)
  have 2: "cleanup ?s' = (None, ?s')"
    using cleanup_again [of s] 1 by simp
  show ?thesis
    using 1 2 cleanup_fields [of s] cleanup_released [of s] cleanup_initial by blast
qed

theorem cleanup_idempotent_witness:
  "cleanup live_example =
     (None, live_example\<lparr> status := DISCONNECTED, isAiSpeaking := False,
        inputAudioContextRef := Some \<lparr> ctx_sampleRate = 16000, ctx_state = Closed \<rparr>,
        outputAudioContextRef := Some \<lparr> ctx_sampleRate = 24000, ctx_state = Closed \<rparr>,
        inputSourceRef := Some \<lparr> mss_connected = False \<rparr>,
        processorRef := Some \<lparr> proc_bufferSize = 4096, proc_connected = False,
                                proc_onaudioprocess = False \<rparr>,
        sessionPromiseRef := None, streamRef := Some \<lparr> tracks = [Ended] \<rparr>,
        sourcesRef := [],
        heap := [\<lparr> src_buffer = silence 24000, src_start = Some 0, src_stopped = True,
                   src_clock = 0 \<rparr>],
        closeRequests := [0] \<rparr>) \<and>
   cleanup (snd (cleanup live_example)) = cleanup live_example"
  using cleanup_idempotent [of live_example]
  by (simp add: cleanup_unfold close_context_def live_example_def stop_at_def stop_def)

lemma stop_at_timing:
  "stop_at h ns = Inr ns' \<Longrightarrow> map timing ns' = map timing ns"
  by (auto simp: stop_at_def stop_def timing_def map_update list_update_same_conv
      split: if_splits option.splits sum.splits)

lemma stop_each_caught_timing:
  "map timing (stop_each_caught hs ns) = map timing ns"
  by (induction hs arbitrary: ns) (auto simp: stop_at_timing split: sum.splits)

text \<open>\<open>cleanup\<close> changes neither the timing of any node nor \<open>nextStartTimeRef\<close>.\<close>

lemma cleanup_timing:
  "map timing (heap (snd (cleanup s))) = map timing (heap s)"
  "nextStartTimeRef (snd (cleanup s)) = nextStartTimeRef s"
  by (simp_all add: cleanup_unfold stop_each_caught_timing split: option.splits)

section \<open>Session controller\<close>

text \<open>
  C7. When the key read from the environment is empty, \<open>connect\<close> shows the alert and
  returns: the state is the one before with the alert text appended, so the status is
  unchanged and no audio context, media stream or session promise is created.
\<close>

theorem connect_without_key:
  assumes "API_KEY env = []"
  shows "connect env media session s =
           (None, s\<lparr> alerts := alerts s @ [''API Key is missing in environment variables''] \<rparr>) \<and>
         status (snd (connect env media session s)) = status s \<and>
         inputAudioContextRef (snd (connect env media session s)) = inputAudioContextRef s \<and>
         outputAudioContextRef (snd (connect env media session s)) = outputAudioContextRef s \<and>
         streamRef (snd (connect env media session s)) = streamRef s \<and>
         sessionPromiseRef (snd (connect env media session s)) = sessionPromiseRef s"
  using assms by (simp add: connect_def)

theorem connect_without_key_witness:
  "API_KEY None = [] \<and> API_KEY (Some []) = [] \<and>
   connect None (Inr \<lparr> tracks = [Live] \<rparr>) 0 initial =
     (None, initial\<lparr> alerts := [''API Key is missing in environment variables''] \<rparr>) \<and>
   status (snd (connect None (Inr \<lparr> tracks = [Live] \<rparr>) 0 initial)) = DISCONNECTED \<and>
   status (snd (connect (Some ''key'') (Inr \<lparr> tracks = [Live] \<rparr>) 0 initial)) = CONNECTING"
  using connect_without_key [of None "Inr \<lparr> tracks = [Live] \<rparr>" 0 initial]
  by (simp add: API_KEY_def initial_def connect_def open_contexts_def)

text \<open>
  \<open>onerror\<close> sets the status to \<open>ERROR\<close> and then calls \<open>cleanup\<close>, whose line 109 sets
  it to \<open>DISCONNECTED\<close>: from every state the handler ends with status \<open>DISCONNECTED\<close>.
\<close>

lemma onerror_cleanup: "onerror s = cleanup (s\<lparr> status := ERROR \<rparr>)"
  by (cases "cleanup (s\<lparr> status := ERROR \<rparr>)") (simp add: onerror_def split: option.splits)

lemma onerror_status: "status (snd (onerror s)) = DISCONNECTED"
  by (simp add: onerror_cleanup cleanup_fields)

text \<open>
  C4. The claim asks for status \<open>ERROR\<close> after \<open>onerror\<close>. In the session in progress
  the handler returns normally and releases every resource, but the status it leaves
  is \<open>DISCONNECTED\<close>, not \<open>ERROR\<close>.
\<close>

theorem onerror_ends_disconnected:
  "fst (onerror live_example) = None \<and>
   status (snd (onerror live_example)) = DISCONNECTED \<and>
   status (snd (onerror live_example)) \<noteq> ERROR \<and>
   released (snd (onerror live_example))"
  by (simp add: onerror_def cleanup_unfold close_context_def live_example_def stop_at_def
      stop_def released_def)

text \<open>
  C5. The claim asks for full teardown after \<open>onclose\<close>. In the session in progress the
  handler only sets the status: the scheduled source stays in the set and is not
  stopped, the processor keeps its callback and its connection, the track stays live
  and both contexts stay running.
\<close>

theorem onclose_skips_teardown:
  "onclose live_example = live_example\<lparr> status := DISCONNECTED \<rparr> \<and>
   \<not> released (onclose live_example) \<and>
   sourcesRef (onclose live_example) = [0] \<and>
   \<not> all_stopped [0] (heap (onclose live_example)) \<and>
   processorRef (onclose live_example) =
     Some \<lparr> proc_bufferSize = 4096, proc_connected = True, proc_onaudioprocess = True \<rparr> \<and>
   streamRef (onclose live_example) = Some \<lparr> tracks = [Live] \<rparr> \<and>
   inputAudioContextRef (onclose live_example) =
     Some \<lparr> ctx_sampleRate = 16000, ctx_state = Running \<rparr> \<and>
   outputAudioContextRef (onclose live_example) =
     Some \<lparr> ctx_sampleRate = 24000, ctx_state = Running \<rparr>"
  by (simp add: onclose_def live_example_def released_def all_stopped_def)

section \<open>Scheduling\<close>

lemma stop_each_timing:
  "map timing (snd (stop_each hs ns)) = map timing ns"
  by (induction hs arbitrary: ns) (auto simp: stop_at_timing split: sum.splits)

lemma interruption_branch_timing:
  "map timing (heap (snd (interruption_branch m s))) = map timing (heap s)"
  using stop_each_timing [of "sourcesRef s" "heap s"]
  by (auto simp: interruption_branch_def handle_interruption_def split: prod.splits option.splits)







lemma chain_mono: "chain lb ns \<Longrightarrow> lb' \<le> lb \<Longrightarrow> chain lb' ns"
  by (cases ns) auto

lemma chain_back_to_back: "chain lb ns \<Longrightarrow> back_to_back ns"
  by (induction ns arbitrary: lb rule: back_to_back.induct) auto

lemma chain_on_time: "chain lb ns \<Longrightarrow> on_time ns"
  by (induction ns arbitrary: lb) (auto simp: on_time_def)

lemma timing_times:
  assumes "timing n = timing n'"
  shows "src_start n = src_start n'" and "src_clock n = src_clock n'"
    and "start_time n = start_time n'" and "end_time n = end_time n'"
  using assms by (simp_all add: timing_def start_time_def end_time_def)

lemma chain_timing:
  "map timing ns = map timing ns' \<Longrightarrow> chain lb ns \<Longrightarrow> chain lb ns'"
proof (induction ns arbitrary: ns' lb)
  case Nil
  then show ?case by simp
next
  case (Cons n ns)
  from Cons.prems(1) obtain n' ns'' where ns': "ns' = n' # ns''" and tn: "timing n = timing n'"
    and tr: "map timing ns = map timing ns''"
    by (cases ns') simp_all
  from Cons.prems(2) have c: "chain (end_time n) ns"
    and h: "src_start n \<noteq> None" "lb \<le> start_time n" "src_clock n \<le> start_time n"
    by simp_all
  from Cons.IH [OF tr c] have "chain (end_time n') ns''"
    by (simp only: timing_times(4) [OF tn])
  with h show ?case
    by (simp add: ns' timing_times [OF tn, symmetric])
qed

text \<open>
  The handlers other than \<open>onmessage\<close> change neither the timing of a node, nor
  \<open>nextStartTimeRef\<close>, nor what is pending.
\<close>

lemma cleanup_pending: "pending (snd (cleanup s)) = pending s"
  by (simp add: cleanup_unfold split: option.splits)

lemma onerror_timing:
  "map timing (heap (snd (onerror s))) = map timing (heap s)"
  "nextStartTimeRef (snd (onerror s)) = nextStartTimeRef s"
  "pending (snd (onerror s)) = pending s"
  by (simp_all add: onerror_cleanup cleanup_timing cleanup_pending)

lemma open_contexts_timing:
  "heap (open_contexts s) = heap s" "nextStartTimeRef (open_contexts s) = nextStartTimeRef s"
  "pending (open_contexts s) = pending s"
  by (simp_all add: open_contexts_def)

lemma connect_timing:
  "map timing (heap (snd (connect env media session s))) = map timing (heap s)"
  "nextStartTimeRef (snd (connect env media session s)) = nextStartTimeRef s"
  "pending (snd (connect env media session s)) = pending s"
  by (simp_all add: connect_def onerror_timing open_contexts_timing split: sum.splits)

lemma onopen_timing:
  "heap (onopen s) = heap s" "nextStartTimeRef (onopen s) = nextStartTimeRef s"
  "pending (onopen s) = pending s"
  by (simp_all add: onopen_def Let_def)

lemma onended_timing:
  "heap (onended h s) = heap s" "nextStartTimeRef (onended h s) = nextStartTimeRef s"
  "pending (onended h s) = pending s"
  by (simp_all add: onended_def Let_def)

lemma onaudioprocess_timing:
  "heap (onaudioprocess enc frame s) = heap s"
  "nextStartTimeRef (onaudioprocess enc frame s) = nextStartTimeRef s"
  "pending (onaudioprocess enc frame s) = pending s"
  by (simp_all add: onaudioprocess_def Let_def split: option.splits)

lemma onclose_timing:
  "heap (onclose s) = heap s" "nextStartTimeRef (onclose s) = nextStartTimeRef s"
  "pending (onclose s) = pending s"
  by (simp_all add: onclose_def)

lemma pending_in_order_kept:
  assumes "pending_in_order s" and "pending s' = pending s"
    and "nextStartTimeRef s \<le> nextStartTimeRef s'"
  shows "pending_in_order s'"
  using assms by (auto simp: pending_in_order_def list_all_iff)

text \<open>
  The call of \<open>onmessage\<close> for a message without the interruption flag creates no node,
  does not lower the ref and keeps the pending decodes in order.
\<close>

lemma onmessage_quiet:
  assumes "\<not> interrupted m" and "is_clock now" and "pending_in_order s"
  shows "heap (snd (onmessage dec now m s)) = heap s"
    and "nextStartTimeRef s \<le> nextStartTimeRef (snd (onmessage dec now m s))"
    and "pending_in_order (snd (onmessage dec now m s))"
  using assms
  by (auto simp: onmessage_def interruption_branch_def schedule_begin_def suspend_def
      pending_in_order_def list_all_iff split: option.splits)

text \<open>
  The rest of the handler, for a decode that was pending in order: either it creates no
  node and leaves the ref alone, or it creates one node, started at the ref, at or after
  the clock reading of the decode, and moves the ref to the end of that node.
\<close>

lemma onmessage_resume_quiet:
  assumes "pending_in_order s"
  shows "pending_in_order (snd (onmessage_resume k s)) \<and>
         (heap (snd (onmessage_resume k s)) = heap s \<and>
            nextStartTimeRef (snd (onmessage_resume k s)) = nextStartTimeRef s
          \<or> (\<exists>buf c. heap (snd (onmessage_resume k s)) =
                  heap s @ [\<lparr> src_buffer = buf, src_start = Some (nextStartTimeRef s),
                              src_stopped = False, src_clock = c \<rparr>] \<and>
                c \<le> nextStartTimeRef s \<and>
                nextStartTimeRef (snd (onmessage_resume k s)) =
                  fadd (nextStartTimeRef s) (duration buf)))"
proof (cases "k < length (pending s)")
  case False
  with assms show ?thesis by (simp add: onmessage_resume_def)
next
  case True
  let ?p = "pending s ! k"
  let ?s1 = "s\<lparr> pending := take k (pending s) @ drop (Suc k) (pending s) \<rparr>"
  from True have "?p \<in> set (pending s)" by simp
  with assms have p: "\<not> interrupted (pd_message ?p)" "pd_clock ?p \<le> nextStartTimeRef s"
    by (simp_all add: pending_in_order_def list_all_iff)
  have sub: "set (pending ?s1) \<subseteq> set (pending s)"
    using set_take_subset [of k "pending s"] set_drop_subset [of "Suc k" "pending s"] by auto
  with assms have o1: "pending_in_order ?s1"
    by (auto simp: pending_in_order_def list_all_iff)
  show ?thesis
  proof (cases "pd_result ?p")
    case (Inl e)
    with True o1 show ?thesis by (simp add: onmessage_resume_def Let_def)
  next
    case (Inr buf)
    show ?thesis
    proof (cases "outputNodeRef s \<noteq> None \<and> pd_context ?p = contextsOpened s")
      case False
      then have "fst (schedule_resume ?p buf ?s1) \<noteq> None \<and> snd (schedule_resume ?p buf ?s1) = ?s1"
        by (auto simp: schedule_resume_def split: option.splits)
      then have "snd (steps [schedule_resume ?p buf, interruption_branch (pd_message ?p)] ?s1) = ?s1"
        by (cases "schedule_resume ?p buf ?s1") auto
      with True Inr o1 show ?thesis by (simp add: onmessage_resume_def Let_def)
    next
      case ok: True
      let ?n = "\<lparr> src_buffer = buf, src_start = Some (nextStartTimeRef s),
                  src_stopped = False, src_clock = pd_clock ?p \<rparr>"
      let ?s2 = "?s1\<lparr> heap := heap s @ [?n],
                      nextStartTimeRef := fadd (nextStartTimeRef s) (duration buf),
                      sourcesRef := set_add (length (heap s)) (sourcesRef s) \<rparr>"
      from ok have "schedule_resume ?p buf ?s1 = (None, ?s2)"
        by (auto simp: schedule_resume_def Let_def)
      with p(1) have "steps [schedule_resume ?p buf, interruption_branch (pd_message ?p)] ?s1 =
          (None, ?s2)"
        by (simp add: interruption_branch_def)
      with True Inr have r: "snd (onmessage_resume k s) = ?s2"
        by (simp add: onmessage_resume_def Let_def)
      have "pending_in_order ?s2"
        unfolding pending_in_order_def list_all_iff
      proof
        fix q assume "q \<in> set (pending ?s2)"
        with sub have "q \<in> set (pending s)" by auto
        with assms have q: "\<not> interrupted (pd_message q)" "is_clock (pd_clock q)"
          "pd_clock q \<le> nextStartTimeRef s"
          by (simp_all add: pending_in_order_def list_all_iff)
        from fadd_ge [OF q(2,3), of buf] q(1,2)
        show "\<not> interrupted (pd_message q) \<and> is_clock (pd_clock q) \<and>
              pd_clock q \<le> nextStartTimeRef ?s2"
          by simp
      qed
      moreover have "heap ?s2 = heap s @ [?n] \<and> pd_clock ?p \<le> nextStartTimeRef s \<and>
          nextStartTimeRef ?s2 = fadd (nextStartTimeRef s) (duration buf)"
        using p(2) by simp
      ultimately show ?thesis
        unfolding r by blast
    qed
  qed
qed

text \<open>One event other than a message with the interruption flag.\<close>

lemma step_quiet:
  assumes "\<not> interrupts ev" and "clocked ev" and "pending_in_order s"
  shows "pending_in_order (step dec enc ev s) \<and>
         (map timing (heap (step dec enc ev s)) = map timing (heap s) \<and>
            nextStartTimeRef s \<le> nextStartTimeRef (step dec enc ev s)
          \<or> (\<exists>buf c. map timing (heap (step dec enc ev s)) =
                  map timing (heap s) @ [(buf, Some (nextStartTimeRef s), c)] \<and>
                c \<le> nextStartTimeRef s \<and>
                nextStartTimeRef (step dec enc ev s) =
                  fadd (nextStartTimeRef s) (duration buf)))"
proof (cases ev)
  case (Message now m)
  with assms have "\<not> interrupted m" "is_clock now" by simp_all
  from onmessage_quiet [OF this assms(3), of dec] Message show ?thesis
    by simp
next
  case (DecodeSettled k)
  from onmessage_resume_quiet [OF assms(3), of k] DecodeSettled show ?thesis
    by (auto simp: timing_def)
next
  case (PermissionChecked g)
  with assms(3) show ?thesis by (simp add: pending_in_order_def)
next
  case (Connect env media session)
  with pending_in_order_kept [OF assms(3), of "snd (connect env media session s)"]
  show ?thesis by (simp add: connect_timing)
next
  case SessionOpened
  with pending_in_order_kept [OF assms(3), of "onopen s"]
  show ?thesis by (simp add: onopen_timing)
next
  case (SourceEnded h)
  with pending_in_order_kept [OF assms(3), of "onended h s"]
  show ?thesis by (simp add: onended_timing)
next
  case (Captured frame)
  with pending_in_order_kept [OF assms(3), of "onaudioprocess enc frame s"]
  show ?thesis by (simp add: onaudioprocess_timing)
next
  case SessionClosed
  with pending_in_order_kept [OF assms(3), of "onclose s"]
  show ?thesis by (simp add: onclose_timing)
next
  case SessionError
  with pending_in_order_kept [OF assms(3), of "snd (onerror s)"]
  show ?thesis by (simp add: onerror_timing)
next
  case Disconnect
  with pending_in_order_kept [OF assms(3), of "snd (cleanup s)"]
  show ?thesis by (simp add: cleanup_timing cleanup_pending)
qed

lemma run_chain:
  assumes "\<forall>ev \<in> set evs. \<not> interrupts ev \<and> clocked ev" and "pending_in_order s"
  shows "\<exists>new. map timing (heap (run dec enc evs s)) = map timing (heap s) @ map timing new \<and>
           chain (nextStartTimeRef s) new"
  using assms
proof (induction evs arbitrary: s)
  case Nil
  have "map timing (heap s) = map timing (heap s) @ map timing [] \<and> chain (nextStartTimeRef s) []"
    by simp
  then show ?case unfolding run.simps by blast
next
  case (Cons ev evs)
  let ?s1 = "step dec enc ev s"
  from Cons.prems have q: "\<not> interrupts ev" "clocked ev" by simp_all
  from Cons.prems have rest: "\<forall>ev \<in> set evs. \<not> interrupts ev \<and> clocked ev" by simp
  from step_quiet [OF q Cons.prems(2), of dec enc] have o1: "pending_in_order ?s1"
    and alt: "map timing (heap ?s1) = map timing (heap s) \<and>
            nextStartTimeRef s \<le> nextStartTimeRef ?s1
          \<or> (\<exists>buf c. map timing (heap ?s1) =
                  map timing (heap s) @ [(buf, Some (nextStartTimeRef s), c)] \<and>
                c \<le> nextStartTimeRef s \<and>
                nextStartTimeRef ?s1 = fadd (nextStartTimeRef s) (duration buf))"
    by simp_all
  from Cons.IH [OF rest o1] obtain new' where
    h': "map timing (heap (run dec enc evs ?s1)) = map timing (heap ?s1) @ map timing new'" and
    c': "chain (nextStartTimeRef ?s1) new'"
    by blast
  from alt
  have "\<exists>new. map timing (heap ?s1) = map timing (heap s) @ map timing new \<and>
          chain (nextStartTimeRef s) (new @ new')"
  proof
    assume "map timing (heap ?s1) = map timing (heap s) \<and>
            nextStartTimeRef s \<le> nextStartTimeRef ?s1"
    with c' have "map timing (heap ?s1) = map timing (heap s) @ map timing [] \<and>
        chain (nextStartTimeRef s) ([] @ new')"
      by (auto intro: chain_mono)
    then show ?thesis by blast
  next
    assume "\<exists>buf c. map timing (heap ?s1) =
                  map timing (heap s) @ [(buf, Some (nextStartTimeRef s), c)] \<and>
                c \<le> nextStartTimeRef s \<and>
                nextStartTimeRef ?s1 = fadd (nextStartTimeRef s) (duration buf)"
    then obtain buf c where
      1: "map timing (heap ?s1) = map timing (heap s) @ [(buf, Some (nextStartTimeRef s), c)]" and
      2: "c \<le> nextStartTimeRef s" and
      3: "nextStartTimeRef ?s1 = fadd (nextStartTimeRef s) (duration buf)"
      by blast
    let ?n = "\<lparr> src_buffer = buf, src_start = Some (nextStartTimeRef s),
                src_stopped = False, src_clock = c \<rparr>"
    from c' 2 3 have "chain (nextStartTimeRef s) ([?n] @ new')"
      by (simp add: start_time_def end_time_def)
    moreover from 1 have "map timing (heap ?s1) = map timing (heap s) @ map timing [?n]"
      by (simp add: timing_def)
    ultimately show ?thesis by blast
  qed
  then obtain new where h: "map timing (heap ?s1) = map timing (heap s) @ map timing new" and
    c: "chain (nextStartTimeRef s) (new @ new')" by blast
  from h h' have "map timing (heap (run dec enc (ev # evs) s)) =
      map timing (heap s) @ map timing (new @ new')"
    by simp
  with c show ?case by blast
qed

text \<open>
  C1. The claim does not hold of every run. In the first run a chunk of one second is
  scheduled at clock time 0, an interruption arrives at 0.25 and resets the ref, and
  the chunk that arrives at 0.5 starts at 0.5, before the end (1) of the chunk before
  it. In the second run nothing interrupts: a chunk of 16800 frames starts at the
  double 0.1 and the next chunk starts where line 210 has put the ref, at the
  double 0.7999999999999999, which is below the start of the first chunk plus its
  duration (the doubles 0.1 and 0.7 added exactly): line 210 adds in double
  arithmetic.
\<close>

lemma fadd_tenth:
  "fadd (3602879701896397 / 36028797018963968) (3152519739159347 / 4503599627370496) =
     7205759403792793 / 9007199254740992"
  by code_simp

theorem scheduler_overlap_examples:
  "map start_time (scheduled ready_example (run example_decoder createPcmBlob
      [Message 0 (audio_message ''AAAA''), DecodeSettled 0, Message (1 / 4) interruption_message,
       Message (1 / 2) (audio_message ''BBBB''), DecodeSettled 0] ready_example)) = [0, 1 / 2] \<and>
   map end_time (scheduled ready_example (run example_decoder createPcmBlob
      [Message 0 (audio_message ''AAAA''), DecodeSettled 0, Message (1 / 4) interruption_message,
       Message (1 / 2) (audio_message ''BBBB''), DecodeSettled 0] ready_example)) = [1, 1] \<and>
   \<not> back_to_back (scheduled ready_example (run example_decoder createPcmBlob
      [Message 0 (audio_message ''AAAA''), DecodeSettled 0, Message (1 / 4) interruption_message,
       Message (1 / 2) (audio_message ''BBBB''), DecodeSettled 0] ready_example)) \<and>
   map start_time (scheduled ready_example (run example_decoder createPcmBlob
      [Message (rnd (1 / 10)) (audio_message ''CCCC''), DecodeSettled 0,
       Message (rnd (1 / 10)) (audio_message ''BBBB''), DecodeSettled 0] ready_example)) =
     [rnd (1 / 10), 7205759403792793 / 9007199254740992] \<and>
   7205759403792793 / 9007199254740992 < rnd (1 / 10) + duration (silence 16800)"
proof -
  let ?run = "run example_decoder createPcmBlob
      [Message 0 (audio_message ''AAAA''), DecodeSettled 0, Message (1 / 4) interruption_message,
       Message (1 / 2) (audio_message ''BBBB''), DecodeSettled 0] ready_example"
  have h: "heap ?run =
      [\<lparr> src_buffer = silence 24000, src_start = Some 0, src_stopped = True, src_clock = 0 \<rparr>,
       \<lparr> src_buffer = silence 12000, src_start = Some (1 / 2), src_stopped = False,
         src_clock = 1 / 2 \<rparr>]"
    by (simp add: onmessage_unfold example_unfold handle_interruption_def stop_at_def stop_def
        duration_silence fadd_def rnd_examples)
  have a: "map start_time (scheduled ready_example ?run) = [0, 1 / 2]"
    "map end_time (scheduled ready_example ?run) = [1, 1]"
    "\<not> back_to_back (scheduled ready_example ?run)"
    unfolding scheduled_def h
    by (simp_all add: example_unfold start_time_def end_time_def duration_silence fadd_def
        rnd_examples)
  have b: "map start_time (scheduled ready_example (run example_decoder createPcmBlob
      [Message (rnd (1 / 10)) (audio_message ''CCCC''), DecodeSettled 0,
       Message (rnd (1 / 10)) (audio_message ''BBBB''), DecodeSettled 0] ready_example)) =
     [rnd (1 / 10), 7205759403792793 / 9007199254740992]"
    by (simp add: onmessage_unfold example_unfold scheduled_def start_time_def
        duration_silence rnd_tenth fadd_tenth)
  have c: "7205759403792793 / 9007199254740992 < rnd (1 / 10) + duration (silence 16800)"
    by (simp add: rnd_tenth duration_silence)
  from a b c show ?thesis by blast
qed

text \<open>
  C1, amended. Take any state whose pending decodes are in order (as when nothing is
  pending) and any list of events in which no message carries the interruption flag
  and every clock reading is a reading of \<open>ctx.currentTime\<close>. The events are handled
  in order; decodes may settle in any order and other handlers may run in between.
  Then the chunks that get scheduled are back to back: each starts no earlier than
  the end of its predecessor as line 210 computes it, the predecessor's start plus
  its duration in double arithmetic. And they are on time: each starts no earlier
  than the clock reading taken when its scheduling began. Messages without audio,
  decodes that fail, ended sources, captured frames and the other callbacks schedule
  nothing.
\<close>

theorem scheduler_non_overlap:
  assumes "\<forall>ev \<in> set evs. \<not> interrupts ev \<and> clocked ev" and "pending_in_order s"
  shows "back_to_back (scheduled s (run decodeChunk createBlob evs s)) \<and>
         on_time (scheduled s (run decodeChunk createBlob evs s))"
proof -
  let ?s' = "run decodeChunk createBlob evs s"
  from run_chain [OF assms, of decodeChunk createBlob] obtain new where
    h: "map timing (heap ?s') = map timing (heap s) @ map timing new" and
    c: "chain (nextStartTimeRef s) new"
    by blast
  from h have "drop (length (heap s)) (map timing (heap ?s')) = map timing new"
    by simp
  then have "map timing new = map timing (scheduled s ?s')"
    by (simp add: scheduled_def drop_map)
  from chain_timing [OF this c] show ?thesis
    by (auto intro: chain_back_to_back chain_on_time)
qed

text \<open>
  The scenario of the specification: chunks of 1.0 s and 0.5 s, the first delivered at
  clock time 0 and the second at 0.25, start at 0 and 1 and end at 1 and 1.5.
\<close>

lemma scenario_heap:
  "heap (run example_decoder createPcmBlob
      [Message 0 (audio_message ''AAAA''), DecodeSettled 0,
       Message (1 / 4) (audio_message ''BBBB''), DecodeSettled 0] ready_example) =
     [\<lparr> src_buffer = silence 24000, src_start = Some 0, src_stopped = False, src_clock = 0 \<rparr>,
      \<lparr> src_buffer = silence 12000, src_start = Some 1, src_stopped = False,
        src_clock = 1 / 4 \<rparr>]"
  by (simp add: onmessage_unfold example_unfold duration_silence fadd_def rnd_examples)

theorem scheduler_non_overlap_witness:
  "\<not> interrupts (Message 0 (audio_message ''AAAA'')) \<and>
   clocked (Message 0 (audio_message ''AAAA'')) \<and>
   \<not> interrupts (Message (1 / 4) (audio_message ''BBBB'')) \<and>
   clocked (Message (1 / 4) (audio_message ''BBBB'')) \<and>
   \<not> interrupts (DecodeSettled 0) \<and> clocked (DecodeSettled 0) \<and>
   pending_in_order ready_example \<and>
   back_to_back (scheduled ready_example (run example_decoder createPcmBlob
      [Message 0 (audio_message ''AAAA''), DecodeSettled 0,
       Message (1 / 4) (audio_message ''BBBB''), DecodeSettled 0] ready_example)) \<and>
   on_time (scheduled ready_example (run example_decoder createPcmBlob
      [Message 0 (audio_message ''AAAA''), DecodeSettled 0,
       Message (1 / 4) (audio_message ''BBBB''), DecodeSettled 0] ready_example)) \<and>
   map start_time (scheduled ready_example (run example_decoder createPcmBlob
      [Message 0 (audio_message ''AAAA''), DecodeSettled 0,
       Message (1 / 4) (audio_message ''BBBB''), DecodeSettled 0] ready_example)) = [0, 1] \<and>
   map end_time (scheduled ready_example (run example_decoder createPcmBlob
      [Message 0 (audio_message ''AAAA''), DecodeSettled 0,
       Message (1 / 4) (audio_message ''BBBB''), DecodeSettled 0] ready_example)) = [1, 3 / 2]"
  using scheduler_non_overlap
    [of "[Message 0 (audio_message ''AAAA''), DecodeSettled 0,
          Message (1 / 4) (audio_message ''BBBB''), DecodeSettled 0]"
      ready_example example_decoder createPcmBlob]
  unfolding scheduled_def scenario_heap
  by (simp add: interrupted_def example_unfold is_clock_examples pending_in_order_def
      start_time_def end_time_def duration_silence fadd_def rnd_examples)

text \<open>
  The same two chunks when the second arrives while the first is still decoded: the
  first starts at 0.25, the reading of the second, and the second at 1.25.
\<close>

lemma interleaved_chunks_example:
  "map (\<lambda>n. (src_clock n, start_time n, end_time n))
     (scheduled ready_example (run example_decoder createPcmBlob
        [Message 0 (audio_message ''AAAA''), Message (1 / 4) (audio_message ''BBBB''),
         DecodeSettled 0, DecodeSettled 0] ready_example)) =
     [(0, 1 / 4, 5 / 4), (1 / 4, 5 / 4, 7 / 4)]"
  by (simp add: onmessage_unfold example_unfold scheduled_def start_time_def end_time_def
      duration_silence fadd_def rnd_examples)

section \<open>Interruption\<close>

lemma stop_each_started:
  assumes "list_all (\<lambda>h. h < length ns \<and> src_start (ns ! h) \<noteq> None) hs"
  shows "\<exists>ns'. stop_each hs ns = (None, ns') \<and> length ns' = length ns \<and>
           (\<forall>i<length ns. src_stopped (ns' ! i) = (src_stopped (ns ! i) \<or> i \<in> set hs))"
  using assms
proof (induction hs arbitrary: ns)
  case Nil
  then show ?case by simp
next
  case (Cons h hs)
  let ?ns1 = "ns[h := (ns ! h)\<lparr> src_stopped := True \<rparr>]"
  from Cons.prems have s: "stop_at h ns = Inr ?ns1"
    by (auto simp: stop_at_def stop_def split: option.splits)
  from Cons.prems have "list_all (\<lambda>h. h < length ?ns1 \<and> src_start (?ns1 ! h) \<noteq> None) hs"
    by (auto simp: list_all_iff nth_list_update)
  from Cons.IH [OF this] obtain ns' where
    r: "stop_each hs ?ns1 = (None, ns')" and l: "length ns' = length ?ns1" and
    st: "\<forall>i<length ?ns1. src_stopped (ns' ! i) = (src_stopped (?ns1 ! i) \<or> i \<in> set hs)"
    by blast
  from Cons.prems have hl: "h < length ns" by simp
  from st hl have "\<forall>i<length ns. src_stopped (ns' ! i) = (src_stopped (ns ! i) \<or> i \<in> set (h # hs))"
    by (auto simp: nth_list_update)
  with s r l show ?case by simp
qed

lemma handle_interruption_started:
  assumes "handles_started s"
  shows "\<exists>ns'. handle_interruption s =
           (None, s\<lparr> heap := ns', sourcesRef := [], nextStartTimeRef := 0,
                     isAiSpeaking := False \<rparr>) \<and>
           length ns' = length (heap s) \<and> all_stopped (sourcesRef s) ns'"
proof -
  from assms stop_each_started [of "heap s" "sourcesRef s"] obtain ns' where
    r: "stop_each (sourcesRef s) (heap s) = (None, ns')" and l: "length ns' = length (heap s)" and
    st: "\<forall>i<length (heap s). src_stopped (ns' ! i) = (src_stopped (heap s ! i) \<or> i \<in> set (sourcesRef s))"
    by (auto simp: handles_started_def)
  from assms l st have "all_stopped (sourcesRef s) ns'"
    by (auto simp: all_stopped_def handles_started_def list_all_iff)
  with r l show ?thesis by (intro exI [of _ ns']) (simp add: handle_interruption_def)
qed

lemma initial_handles_started: "handles_started initial"
  by (simp add: handles_started_def initial_def)

lemma onended_handles_started: "handles_started s \<Longrightarrow> handles_started (onended h s)"
  by (auto simp: handles_started_def onended_def Let_def list_all_iff)

text \<open>
  Every handler keeps the handles of the set started, so they are started in every state
  that a list of events reaches from the initial state.
\<close>

lemma handles_started_timing:
  assumes "handles_started s" and "map timing (heap s') = map timing (heap s)"
    and "sourcesRef s' = sourcesRef s"
  shows "handles_started s'"
proof -
  from assms(2) have l: "length (heap s') = length (heap s)"
    by (rule map_eq_imp_length_eq)
  have "src_start (heap s' ! h) = src_start (heap s ! h)" if "h < length (heap s)" for h
  proof -
    from that l have "timing (heap s' ! h) = map timing (heap s') ! h" by simp
    also from that have "\<dots> = timing (heap s ! h)" by (simp add: assms(2))
    finally show ?thesis by (simp add: timing_def)
  qed
  with assms(1,3) l show ?thesis
    by (simp add: handles_started_def list_all_iff)
qed

lemma interruption_branch_handles_started:
  assumes "handles_started s"
  shows "handles_started (snd (interruption_branch m s))"
proof (cases "sourcesRef (snd (interruption_branch m s)) = sourcesRef s")
  case True
  with assms interruption_branch_timing [of m s] show ?thesis
    by (rule handles_started_timing)
next
  case False
  then have "sourcesRef (snd (interruption_branch m s)) = []"
    by (auto simp: interruption_branch_def handle_interruption_def
        split: if_splits prod.splits option.splits)
  then show ?thesis by (simp add: handles_started_def)
qed

lemma onmessage_handles_started:
  assumes "handles_started s"
  shows "handles_started (snd (onmessage dec now m s))"
proof (cases "carries_audio m \<and> output_ready s")
  case True
  with assms show ?thesis
    by (auto simp: onmessage_def carries_audio_def handles_started_def schedule_begin_def
        suspend_def split: option.splits)
next
  case False
  then have "onmessage dec now m s = interruption_branch m s"
    by (auto simp: onmessage_def carries_audio_def split: option.splits)
  with interruption_branch_handles_started [OF assms, of m] show ?thesis by simp
qed

lemma steps_single: "steps [f] s = f s"
  by (cases "f s") (auto split: option.splits)

lemma schedule_resume_handles_started:
  assumes "handles_started s"
  shows "handles_started (snd (schedule_resume p buf s))"
  using assms
  by (auto simp: schedule_resume_def handles_started_def set_add_def Let_def list_all_iff
      nth_append split: option.splits)

lemma onmessage_resume_handles_started:
  assumes "handles_started s"
  shows "handles_started (snd (onmessage_resume k s))"
proof (cases "k < length (pending s)")
  case False
  with assms show ?thesis by (simp add: onmessage_resume_def)
next
  case True
  let ?p = "pending s ! k"
  let ?s1 = "s\<lparr> pending := take k (pending s) @ drop (Suc k) (pending s) \<rparr>"
  from assms have s1: "handles_started ?s1" by (simp add: handles_started_def)
  show ?thesis
  proof (cases "pd_result ?p")
    case (Inl e)
    with True s1 show ?thesis by (simp add: onmessage_resume_def Let_def)
  next
    case (Inr buf)
    obtain e s2 where r: "schedule_resume ?p buf ?s1 = (e, s2)"
      by (cases "schedule_resume ?p buf ?s1")
    with schedule_resume_handles_started [OF s1, of ?p buf] have s2: "handles_started s2"
      by simp
    have "steps [schedule_resume ?p buf, interruption_branch (pd_message ?p)] ?s1 =
        (case e of None \<Rightarrow> interruption_branch (pd_message ?p) s2 | Some err \<Rightarrow> (Some err, s2))"
      using r steps_single [of "interruption_branch (pd_message ?p)" s2]
      by (simp split: option.splits)
    with True Inr interruption_branch_handles_started [OF s2, of "pd_message ?p"] s2
    show ?thesis
      by (cases e) (simp_all add: onmessage_resume_def Let_def)
  qed
qed

lemma cleanup_handles_started: "handles_started (snd (cleanup s))"
  by (simp add: handles_started_def cleanup_fields)

lemma onerror_handles_started: "handles_started (snd (onerror s))"
  by (simp add: onerror_cleanup cleanup_handles_started)

lemma step_handles_started:
  assumes "handles_started s"
  shows "handles_started (step dec enc ev s)"
proof (cases ev)
  case (Message now m)
  with onmessage_handles_started [OF assms] show ?thesis by simp
next
  case (DecodeSettled k)
  with onmessage_resume_handles_started [OF assms] show ?thesis by simp
next
  case (PermissionChecked g)
  with assms show ?thesis by (simp add: handles_started_def)
next
  case (Connect env media session)
  with assms onerror_handles_started [of "open_contexts s"] show ?thesis
    by (simp add: connect_def handles_started_def open_contexts_timing split: sum.splits)
      (simp add: open_contexts_def)
next
  case SessionOpened
  with assms show ?thesis by (simp add: handles_started_def onopen_def Let_def)
next
  case (SourceEnded h)
  with assms show ?thesis by (simp add: onended_handles_started)
next
  case (Captured frame)
  with assms show ?thesis
    by (simp add: handles_started_def onaudioprocess_def Let_def split: option.splits)
next
  case SessionClosed
  with assms show ?thesis by (simp add: handles_started_def onclose_def)
next
  case SessionError
  then show ?thesis by (simp add: onerror_handles_started)
next
  case Disconnect
  then show ?thesis by (simp add: cleanup_handles_started)
qed

lemma run_handles_started:
  "handles_started s \<Longrightarrow> handles_started (run dec enc evs s)"
  by (induction evs arbitrary: s) (simp_all add: step_handles_started)

lemma reachable_handles_started: "handles_started (run dec enc evs initial)"
  by (rule run_handles_started) (rule initial_handles_started)


text \<open>
  No handler cancels a decode that is pending; \<open>cleanup\<close> does not either. When the
  user disconnects while the second chunk is decoded, the chunk is started and added
  to the set after the teardown.
\<close>

lemma cleanup_misses_pending_chunk:
  "sourcesRef (run example_decoder createPcmBlob
     [Message 2 (audio_message ''BBBB''), Disconnect] live_example) = [] \<and>
   scheduled live_example (run example_decoder createPcmBlob
     [Message 2 (audio_message ''BBBB''), Disconnect, DecodeSettled 0] live_example) =
     [\<lparr> src_buffer = silence 12000, src_start = Some 2, src_stopped = False, src_clock = 2 \<rparr>] \<and>
   sourcesRef (run example_decoder createPcmBlob
     [Message 2 (audio_message ''BBBB''), Disconnect, DecodeSettled 0] live_example) = [1]"
  by (simp add: onmessage_unfold example_unfold cleanup_unfold close_context_def stop_at_def
      stop_def scheduled_def)




text \<open>
  When the message with the interruption flag carries audio as well, the interruption
  branch runs after the chunk has been decoded and scheduled, and stops that chunk too.
\<close>

lemma interruption_after_decode:
  assumes "k < length (pending s)" and "pd_result (pending s ! k) = Inr buf"
    and "interrupted (pd_message (pending s ! k))" and "handles_started s"
    and "schedule_resume (pending s ! k) buf
           (s\<lparr> pending := take k (pending s) @ drop (Suc k) (pending s) \<rparr>) = (None, s1)"
  shows "\<exists>s'. onmessage_resume k s = (None, s') \<and>
           all_stopped (sourcesRef s1) (heap s') \<and> sourcesRef s' = [] \<and>
           nextStartTimeRef s' = 0 \<and> \<not> isAiSpeaking s'"
proof -
  let ?s0 = "s\<lparr> pending := take k (pending s) @ drop (Suc k) (pending s) \<rparr>"
  from assms(4) have "handles_started ?s0" by (simp add: handles_started_def)
  from schedule_resume_handles_started [OF this, of "pending s ! k" buf] assms(5)
  have "handles_started s1" by simp
  from handle_interruption_started [OF this] obtain ns' where
    h: "handle_interruption s1 =
           (None, s1\<lparr> heap := ns', sourcesRef := [], nextStartTimeRef := 0,
                      isAiSpeaking := False \<rparr>)" and
    st: "all_stopped (sourcesRef s1) ns'"
    by blast
  from assms(1,2,3,5) h
    steps_single [of "interruption_branch (pd_message (pending s ! k))" s1]
  have "onmessage_resume k s =
      (None, s1\<lparr> heap := ns', sourcesRef := [], nextStartTimeRef := 0, isAiSpeaking := False \<rparr>)"
    by (simp add: onmessage_resume_def Let_def interruption_branch_def)
  with st show ?thesis by simp
qed

text \<open>
  When nothing is being decoded while the interruption is handled, every chunk that is
  scheduled afterwards, until the next interruption, starts at or after its clock
  reading and after the chunk before it, whatever else is handled in between.
\<close>

lemma after_interruption_on_time:
  assumes "interrupted m" and "handles_started s" and "\<not> (carries_audio m \<and> output_ready s)"
    and "pending s = []" and "\<forall>ev \<in> set evs. \<not> interrupts ev \<and> clocked ev"
  shows "back_to_back (scheduled (snd (onmessage dec now m s))
           (run dec enc evs (snd (onmessage dec now m s)))) \<and>
         on_time (scheduled (snd (onmessage dec now m s))
           (run dec enc evs (snd (onmessage dec now m s))))"
proof -
  let ?s' = "snd (onmessage dec now m s)"
  from handle_interruption_started [OF assms(2)] obtain ns' where
    h: "handle_interruption s =
           (None, s\<lparr> heap := ns', sourcesRef := [], nextStartTimeRef := 0,
                     isAiSpeaking := False \<rparr>)"
    by blast
  from assms(3) have "onmessage dec now m s = interruption_branch m s"
    by (auto simp: onmessage_def carries_audio_def split: option.splits)
  with h assms(1,4) have "pending ?s' = []"
    by (simp add: interruption_branch_def)
  then have "pending_in_order ?s'" by (simp add: pending_in_order_def)
  from run_chain [OF assms(5) this, of dec enc] obtain new where
    n: "map timing (heap (run dec enc evs ?s')) = map timing (heap ?s') @ map timing new" and
    c: "chain (nextStartTimeRef ?s') new"
    by blast
  from n have "drop (length (heap ?s')) (map timing (heap (run dec enc evs ?s'))) =
      map timing new"
    by simp
  then have "map timing new = map timing (scheduled ?s' (run dec enc evs ?s'))"
    by (simp add: scheduled_def drop_map)
  from chain_timing [OF this c] show ?thesis
    by (auto intro: chain_back_to_back chain_on_time)
qed

section \<open>Capture callback\<close>

text \<open>The sum of squares is never negative, and a silent frame has root mean square 0.\<close>

lemma sum_squares_nonneg: "0 \<le> a \<Longrightarrow> 0 \<le> foldl (\<lambda>sum x. fadd sum (fmul x x)) a xs"
proof (induction xs arbitrary: a)
  case Nil
  then show ?case by simp
next
  case (Cons x xs)
  have "0 \<le> rnd (x * x)" by (rule rnd_nonneg) simp
  with Cons.prems have "0 \<le> fadd a (fmul x x)"
    unfolding fadd_def fmul_def by (intro rnd_nonneg) simp
  from Cons.IH [OF this] show ?case by simp
qed

lemma mean_square_nonneg: "0 \<le> fdiv (sum_squares frame) (real (length frame))"
  unfolding fdiv_def sum_squares_def
  by (intro rnd_nonneg divide_nonneg_nonneg sum_squares_nonneg) simp_all






text \<open>
  The comparison is made on the rounded numbers. The four 32-bit samples below have a
  mean of squares above \<open>0.02\<^sup>2\<close>, but lines 163 to 165 compute the double 0.02 for
  them, which does not exceed the threshold: the indicator is off.
\<close>

lemma rms_boundary_example:
  "rms [5368709 / 268435456, 8871983 / 268435456, 11140579 / 1073741824,
        11622969 / 4398046511104] = Some threshold"
  unfolding threshold_def by code_simp

lemma threshold_boundary:
  "(1 / 50)\<^sup>2 < (\<Sum>x\<leftarrow>[5368709 / 268435456, 8871983 / 268435456, 11140579 / 1073741824,
        11622969 / 4398046511104 :: real]. x * x) / 4 \<and>
   \<not> isUserSpeaking (onaudioprocess createBlob
      [5368709 / 268435456, 8871983 / 268435456, 11140579 / 1073741824,
       11622969 / 4398046511104] s)"
proof -
  have "\<not> above_threshold (rms [5368709 / 268435456, 8871983 / 268435456,
      11140579 / 1073741824, 11622969 / 4398046511104])"
    unfolding rms_boundary_example by (simp add: above_threshold_def)
  then show ?thesis
    by (simp add: onaudioprocess_def Let_def power2_eq_square split: option.splits)
qed

text \<open>
  The guard of line 170: without a session promise the indicator is still set, and
  nothing is queued.
\<close>

lemma capture_without_session:
  assumes "sessionPromiseRef s = None"
  shows "onaudioprocess createBlob frame s =
           s\<lparr> isUserSpeaking := above_threshold (rms frame) \<rparr>"
  using assms by (simp add: onaudioprocess_def Let_def)

section \<open>Codec round trip\<close>

lemma length_b64chars: "length b64chars = 64"
  by (simp add: b64chars_def)

lemma distinct_b64chars: "distinct b64chars"
  by (simp add: b64chars_def)

lemma index_of_nth: "distinct xs \<Longrightarrow> i < length xs \<Longrightarrow> index_of (xs ! i) xs = Some i"
proof (induction xs arbitrary: i)
  case Nil
  then show ?case by simp
next
  case (Cons x xs)
  then show ?case by (cases i) auto
qed

lemma dec_enc_char: "i < 64 \<Longrightarrow> dec_char (enc_char i) = Some i"
  by (simp add: dec_char_def enc_char_def index_of_nth distinct_b64chars length_b64chars)

lemma enc_char_not_pad: "enc_char i \<noteq> CHR ''=''"
proof -
  have "CHR ''='' \<notin> set b64chars" by (simp add: b64chars_def)
  moreover have "enc_char i \<in> set b64chars"
    by (simp add: enc_char_def length_b64chars)
  ultimately show ?thesis by metis
qed

lemma sextet_bounds:
  "a < 256 \<Longrightarrow> a div 4 < (64::nat)"
  "b < 256 \<Longrightarrow> (a mod 4) * 16 + b div 16 < (64::nat)"
  "c < 256 \<Longrightarrow> (b mod 16) * 4 + c div 64 < (64::nat)"
  "c mod 64 < (64::nat)"
  "(a mod 4) * 16 < (64::nat)"
  "(b mod 16) * 4 < (64::nat)"
  by simp_all

lemma octet1:
  "a < 256 \<Longrightarrow> b < 256 \<Longrightarrow>
   ((a div 4) * 4 + ((a mod 4) * 16 + b div 16) div 16) mod 256 = (a::nat)"
  by (simp add: div_mult2_eq [symmetric])

lemma octet2:
  assumes "b < 256" and "c < 256"
  shows "(((a mod 4) * 16 + b div 16) * 16 + ((b mod 16) * 4 + c div 64) div 4) mod 256 = (b::nat)"
proof -
  have 1: "((b mod 16) * 4 + c div 64) div 4 = b mod 16"
    using assms(2) by simp
  have "((a mod 4) * 16 + b div 16) * 16 + b mod 16 = (a mod 4) * 256 + b"
    by (simp add: algebra_simps)
  with 1 assms(1) show ?thesis by simp
qed

lemma octet3:
  assumes "c < 256"
  shows "(((b mod 16) * 4 + c div 64) * 64 + c mod 64) mod 256 = (c::nat)"
proof -
  have "((b mod 16) * 4 + c div 64) * 64 + c mod 64 = (b mod 16) * 256 + c"
    by (simp add: algebra_simps)
  with assms show ?thesis by simp
qed

lemma octet2_padded:
  assumes "b < 256"
  shows "(((a mod 4) * 16 + b div 16) * 16 + ((b mod 16) * 4) div 4) mod 256 = (b::nat)"
proof -
  have "((a mod 4) * 16 + b div 16) * 16 + b mod 16 = (a mod 4) * 256 + b"
    by (simp add: algebra_simps)
  with assms show ?thesis by simp
qed

lemma octet1_padded: "a < 256 \<Longrightarrow> ((a div 4) * 4 + ((a mod 4) * 16) div 16) mod 256 = (a::nat)"
  by simp

lemma b64_roundtrip:
  "\<forall>b \<in> set bs. b < 256 \<Longrightarrow> b64_decode (b64_encode bs) = Inr bs"
proof (induction bs rule: b64_encode.induct)
  case (1 a b c rest)
  then have r: "a < 256" "b < 256" "c < 256" by simp_all
  from 1 have "b64_decode (b64_encode rest) = Inr rest" by simp
  with r show ?case
    by (simp add: dec_enc_char enc_char_not_pad sextet_bounds octet1 octet2 octet3
        del: One_nat_def)
next
  case (2 a b)
  then have r: "a < 256" "b < 256" by simp_all
  then show ?case
    by (simp add: dec_enc_char enc_char_not_pad sextet_bounds octet1 octet2_padded)
next
  case (3 a)
  then have r: "a < 256" by simp
  then show ?case
    by (simp add: dec_enc_char enc_char_not_pad sextet_bounds octet1_padded)
next
  case 4
  then show ?case by simp
qed


lemma int16_bytes_roundtrip:
  assumes "- 32768 \<le> q" and "q \<le> 32767"
  shows "int16s_of_bytes (int16_bytes q @ rest) =
           (case int16s_of_bytes rest of Inl e \<Rightarrow> Inl e | Inr qs \<Rightarrow> Inr (q # qs))"
proof -
  let ?u = "nat (q mod 65536)"
  have "int (?u mod 256) + 256 * int (?u div 256) = int ?u"
    by (simp add: zmod_int zdiv_int del: of_nat_mod of_nat_div)
  then have u: "int (?u mod 256) + 256 * int (?u div 256) = q mod 65536"
    by simp
  have "int16_of (?u mod 256) (?u div 256) = q"
  proof (cases "q < 0")
    case True
    with assms have "(q + 65536) mod 65536 = q + 65536"
      by (intro mod_pos_pos_trivial) simp_all
    then have "q mod 65536 = q + 65536"
      using mod_add_self2 [of q 65536] by simp
    with u True assms show ?thesis by (simp add: int16_of_def Let_def)
  next
    case False
    with assms have "q mod 65536 = q" by simp
    with u False assms show ?thesis by (simp add: int16_of_def Let_def)
  qed
  then show ?thesis by (simp add: int16_bytes_def Let_def split: sum.splits)
qed

lemma int16_bytes_small: "\<forall>b \<in> set (int16_bytes q). b < 256"
proof -
  have "nat (q mod 65536) < 65536" by simp
  then have "nat (q mod 65536) div 256 < 256" by simp
  then show ?thesis by (simp add: int16_bytes_def Let_def)
qed

lemma pcm_bytes_small: "\<forall>b \<in> set (pcm_bytes samples). b < 256"
  using int16_bytes_small by (auto simp: pcm_bytes_def)

lemma int16s_roundtrip:
  assumes "\<forall>q \<in> set qs. - 32768 \<le> q \<and> q \<le> 32767"
  shows "int16s_of_bytes (concat (map int16_bytes qs)) = Inr qs"
  using assms by (induction qs) (simp_all add: int16_bytes_roundtrip)

lemma float_to_int16_range: "- 32768 \<le> float_to_int16 x \<and> float_to_int16 x \<le> 32767"
proof -
  have "0 \<le> (js_trunc r + 32768) mod 65536 \<and> (js_trunc r + 32768) mod 65536 < 65536" for r
    by simp
  then show ?thesis
    by (simp add: float_to_int16_def toInt16_def Let_def)
qed


lemma grid_quantize:
  assumes "on_grid x"
  shows "\<bar>real_of_int (float_to_int16 x) / 32768 - x\<bar> \<le> 1 / 32768"
proof -
  define k where "k = \<lfloor>x * 32768\<rfloor>"
  from assms have k: "real_of_int k = x * 32768" and lo: "- 1 \<le> x" and hi: "x \<le> 1"
    by (simp_all add: on_grid_def k_def)
  from k have x: "x = real_of_int k / 32768" by simp
  from lo hi have clamp: "max (- 1) (min 1 x) = x" by simp
  show ?thesis
  proof (cases "x < 0")
    case True
    from k have "js_trunc (x * 32768) = k"
      using True by (simp add: js_trunc_def k [symmetric])
    moreover from True lo k have "- 32768 \<le> k" "k < 0" by linarith+
    then have "(k + 32768) mod 65536 = k + 32768" by simp
    ultimately have "float_to_int16 x = k"
      using True clamp by (simp add: float_to_int16_def toInt16_def Let_def)
    with x show ?thesis by simp
  next
    case False
    define q where "q = \<lfloor>x * 32767\<rfloor>"
    have v: "x * 32767 = real_of_int k - x" using k by simp
    from False hi have q0: "0 \<le> q" and q1: "q \<le> 32767"
      by (simp_all add: q_def le_floor_iff floor_le_iff)
    then have "(q + 32768) mod 65536 = q + 32768" by simp
    with False clamp have f: "float_to_int16 x = q"
      by (simp add: float_to_int16_def toInt16_def js_trunc_def Let_def q_def
          mult_less_0_iff)
    have "real_of_int q \<le> x * 32767" and "x * 32767 < real_of_int q + 1"
      by (simp_all add: q_def)
    with v False hi have "real_of_int k - 2 < real_of_int q" and "real_of_int q \<le> real_of_int k"
      by linarith+
    then have "k - 1 \<le> q" and "q \<le> k" by linarith+
    then have "real_of_int k - 1 \<le> real_of_int q" and "real_of_int q \<le> real_of_int k"
      by linarith+
    then have "x * 32768 - 1 \<le> real_of_int q" and "real_of_int q \<le> x * 32768"
      by (simp_all only: k)
    then have "\<bar>real_of_int q / 32768 - x\<bar> \<le> 1 / 32768"
      by arith
    then show ?thesis by (simp only: f)
  qed
qed

lemma mono_channel:
  assumes "int16s_of_bytes bytes = Inr qs"
  shows "decodeAudioData bytes ctx rate 1 =
           Inr \<lparr> buf_sampleRate = rate,
                 buf_channels = [map (\<lambda>q. real_of_int q / 32768) qs] \<rparr>"
proof -
  have "map (\<lambda>i. real_of_int (qs ! i) / 32768) [0..<length qs] =
        map (\<lambda>q. real_of_int q / 32768) qs"
    by (rule nth_equalityI) simp_all
  with assms show ?thesis by (simp add: decodeAudioData_def Let_def)
qed

text \<open>
  C3. For every list of samples on the 16-bit grid in \<open>[-1, 1]\<close>: the blob built by
  \<open>createPcmBlob\<close> decodes (\<open>decode\<close>, then \<open>decodeAudioData\<close> with one channel, which
  divides by 32768) to one channel with as many samples, each within \<open>1 / 32768\<close> of
  the original.
\<close>

theorem codec_round_trip:
  assumes "\<forall>x \<in> set samples. on_grid x"
  shows "\<exists>bytes buf ys.
           decode (blob_data (createPcmBlob samples)) = Inr bytes \<and>
           decodeAudioData bytes ctx rate 1 = Inr buf \<and>
           buf_channels buf = [ys] \<and> length ys = length samples \<and>
           (\<forall>i<length samples. \<bar>ys ! i - samples ! i\<bar> \<le> 1 / 32768)"
proof -
  let ?qs = "map float_to_int16 samples"
  let ?ys = "map (\<lambda>q. real_of_int q / 32768) ?qs"
  have b: "pcm_bytes samples = concat (map int16_bytes ?qs)"
    by (simp add: pcm_bytes_def comp_def)
  have 1: "decode (blob_data (createPcmBlob samples)) = Inr (pcm_bytes samples)"
    using pcm_bytes_small [of samples] by (simp add: decode_def createPcmBlob_def b64_roundtrip)
  have "int16s_of_bytes (pcm_bytes samples) = Inr ?qs"
    unfolding b by (rule int16s_roundtrip) (simp add: float_to_int16_range)
  then have 2: "decodeAudioData (pcm_bytes samples) ctx rate 1 =
      Inr \<lparr> buf_sampleRate = rate, buf_channels = [?ys] \<rparr>"
    by (rule mono_channel)
  have 3: "\<forall>i<length samples. \<bar>?ys ! i - samples ! i\<bar> \<le> 1 / 32768"
  proof (intro allI impI)
    fix i
    assume i: "i < length samples"
    with assms have "on_grid (samples ! i)" by simp
    from grid_quantize [OF this] i show "\<bar>?ys ! i - samples ! i\<bar> \<le> 1 / 32768"
      by simp
  qed
  show ?thesis
  proof (intro exI conjI)
    show "decode (blob_data (createPcmBlob samples)) = Inr (pcm_bytes samples)" by (rule 1)
    show "decodeAudioData (pcm_bytes samples) ctx rate 1 =
            Inr \<lparr> buf_sampleRate = rate, buf_channels = [?ys] \<rparr>" by (rule 2)
    show "buf_channels \<lparr> buf_sampleRate = rate, buf_channels = [?ys] \<rparr> = [?ys]" by simp
    show "length ?ys = length samples" by simp
    show "\<forall>i<length samples. \<bar>?ys ! i - samples ! i\<bar> \<le> 1 / 32768" by (rule 3)
  qed
qed

text \<open>
  The samples 1 and -1/2 are stored as 32767 and -16384, packed as the bytes
  \<open>FF 7F 00 C0\<close> and sent as \<open>/38AwA==\<close>; decoding gives 32767/32768 and -1/2.
\<close>

lemma example_samples:
  "float_to_int16 1 = 32767" "float_to_int16 (- (1 / 2)) = - 16384"
  by (simp_all add: float_to_int16_def toInt16_def js_trunc_def)

lemma example_bytes: "pcm_bytes [1, - (1 / 2)] = [255, 127, 0, 192]"
  by (simp add: pcm_bytes_def example_samples int16_bytes_def)

lemma example_base64: "b64_encode [255, 127, 0, 192] = ''/38AwA==''"
  by (simp add: enc_char_def b64chars_def)

lemma example_sextets:
  "dec_char CHR ''/'' = Some 63" "dec_char CHR ''3'' = Some 55" "dec_char CHR ''8'' = Some 60"
  "dec_char CHR ''A'' = Some 0" "dec_char CHR ''w'' = Some 48"
  by (simp_all add: dec_char_def b64chars_def)

lemma example_decode: "b64_decode ''/38AwA=='' = Inr [255, 127, 0, 192]"
  by (simp add: example_sextets)

lemma example_playable:
  "decodeAudioData [255, 127, 0, 192] ctx 24000 1 =
     Inr \<lparr> buf_sampleRate = 24000, buf_channels = [[32767 / 32768, - (1 / 2)]] \<rparr>"
  by (simp add: decodeAudioData_def int16_of_def Let_def upt_rec)

theorem codec_round_trip_witness:
  "on_grid 1 \<and> on_grid (- (1 / 2)) \<and>
   createPcmBlob [1, - (1 / 2)] =
     \<lparr> blob_data = ''/38AwA=='', blob_mimeType = ''audio/pcm;rate=16000'' \<rparr> \<and>
   decode ''/38AwA=='' = Inr [255, 127, 0, 192] \<and>
   decodeAudioData [255, 127, 0, 192] \<lparr> ctx_sampleRate = 24000, ctx_state = Running \<rparr> 24000 1 =
     Inr \<lparr> buf_sampleRate = 24000, buf_channels = [[32767 / 32768, - (1 / 2)]] \<rparr> \<and>
   \<bar>32767 / 32768 - (1 :: real)\<bar> \<le> 1 / 32768"
  using codec_round_trip [of "[1, - (1 / 2)]" "\<lparr> ctx_sampleRate = 24000, ctx_state = Running \<rparr>" 24000]
    example_bytes example_base64 example_decode
    example_playable [of "\<lparr> ctx_sampleRate = 24000, ctx_state = Running \<rparr>"]
  by (simp add: on_grid_def createPcmBlob_def decode_def)

lemma int16s_of_bytes_length:
  "int16s_of_bytes bytes = Inr qs \<Longrightarrow> length qs = length bytes div 2"
  by (induction bytes arbitrary: qs rule: int16s_of_bytes.induct)
    (auto split: sum.splits)

text \<open>
  A payload that decodes gives a mono buffer at 24 kHz with one frame for every two
  bytes; its duration is the double nearest to the number of frames over 24000.
\<close>

lemma decodeInbound_duration:
  assumes "decodeInbound ctx base64 = Inr buf"
  shows "\<exists>bytes. decode base64 = Inr bytes \<and>
           duration buf = fdiv (real (length bytes div 2)) 24000"
proof -
  from assms obtain bytes where d: "decode base64 = Inr bytes"
    and a: "decodeAudioData bytes ctx 24000 1 = Inr buf"
    by (auto simp: decodeInbound_def split: sum.splits)
  from a obtain qs where q: "int16s_of_bytes bytes = Inr qs"
    by (auto simp: decodeAudioData_def split: sum.splits)
  from mono_channel [OF q, of ctx 24000] a
  have "buf = \<lparr> buf_sampleRate = 24000, buf_channels = [map (\<lambda>q. real_of_int q / 32768) qs] \<rparr>"
    by simp
  then have "duration buf = fdiv (real (length qs)) 24000"
    by (simp add: duration_def buf_length_def)
  with d int16s_of_bytes_length [OF q] show ?thesis by simp
qed

text \<open>
  Off the grid the bound can fail for a positive sample: \<open>49153 / 65536\<close> lies halfway
  between two grid points, is stored as 24575 and comes back as \<open>24575 / 32768\<close>, one
  and a half steps below.
\<close>

lemma off_grid_example:
  "\<not> on_grid (49153 / 65536) \<and> float_to_int16 (49153 / 65536) = 24575 \<and>
   \<bar>real_of_int (float_to_int16 (49153 / 65536)) / 32768 - 49153 / 65536\<bar> = 3 / 65536"
  by (simp add: on_grid_def float_to_int16_def toInt16_def js_trunc_def)

end
